theory Spec2Isabelle
  imports Main "HOL-Library.List_Lexorder" "HOL-Library.Sublist" "HOL-Library.AList"
    "HOL-Library.Word"
begin

section \<open>Python strings\<close>

text \<open>
  A Python \<open>str\<close> is a sequence of Unicode code points. A code point is modelled as a
  natural number and a string as the list of its code points; the order on strings is
  the lexicographic order of the code points (\<open>List_Lexorder\<close>), which is how Python
  compares two \<open>str\<close> values. String literals of the source are written with \<open>lit\<close>.
\<close>

type_synonym str = "nat list"

definition lit :: "string \<Rightarrow> str" where
  "lit s = map of_char s"

text \<open>
  \<open>str.isspace\<close> for one code point: the code points Python treats as whitespace
  (\<open>str.strip()\<close> without argument removes exactly these from both ends).
\<close>

definition isspace :: "nat \<Rightarrow> bool" where
  "isspace c \<longleftrightarrow>
     (9 \<le> c \<and> c \<le> 13) \<or> (28 \<le> c \<and> c \<le> 32) \<or> c = 133 \<or> c = 160 \<or> c = 5760 \<or>
     (8192 \<le> c \<and> c \<le> 8202) \<or> c = 8232 \<or> c = 8233 \<or> c = 8239 \<or> c = 8287 \<or> c = 12288"

definition strip :: "str \<Rightarrow> str" where
  "strip s = rev (dropWhile isspace (rev (dropWhile isspace s)))"

text \<open>
  \<open>str.lower\<close>. The source only ever tests the lowered string with \<open>startswith\<close>
  against the ASCII literals \<open>http://\<close> and \<open>https://\<close>. No code point outside ASCII
  lower-cases to a string that begins with one of the characters of these literals, and
  the only ASCII characters that lower-case to them are the letters themselves in either
  case, so for these two tests the lowering of the ASCII capital letters decides.
\<close>

definition lower_cp :: "nat \<Rightarrow> nat" where
  "lower_cp c = (if 65 \<le> c \<and> c \<le> 90 then c + 32 else c)"

definition lower :: "str \<Rightarrow> str" where
  "lower s = map lower_cp s"

definition startswith :: "str \<Rightarrow> str \<Rightarrow> bool" where
  "startswith s p = prefix p s"

definition endswith :: "str \<Rightarrow> str \<Rightarrow> bool" where
  "endswith s p = suffix p s"

section \<open>The pattern normalizer\<close>

text \<open>\<open>HOST_PATTERN_TEMPLATE.format(scheme=..., host=...)\<close> with the template
  \<open>{scheme}://{host}/*\<close>.\<close>

definition HOST_PATTERN_TEMPLATE_format :: "str \<Rightarrow> str \<Rightarrow> str" where
  "HOST_PATTERN_TEMPLATE_format scheme host = scheme @ lit ''://'' @ host @ lit ''/*''"

definition ensure_trailing_wildcard :: "str \<Rightarrow> str" where
  "ensure_trailing_wildcard pattern =
     (if endswith pattern (lit ''/*'') then pattern
      else if endswith pattern (lit ''/'') then pattern @ lit ''*''
      else pattern @ lit ''/*'')"

text \<open>One iteration of the \<open>for raw in hosts\<close> loop: the set \<open>patterns\<close> after the body
  has run on \<open>raw\<close>. Each \<open>continue\<close> of the source is a branch that returns.\<close>

definition normalize_body :: "bool \<Rightarrow> str \<Rightarrow> str set \<Rightarrow> str set" where
  "normalize_body allow_http raw patterns =
     (if raw = [] then patterns
      else
        let candidate = strip raw in
        if candidate = [] then patterns
        else
          let low = lower candidate in
          if startswith low (lit ''http://'') \<or> startswith low (lit ''https://'')
          then insert (ensure_trailing_wildcard candidate) patterns
          else
            let patterns1 = insert (HOST_PATTERN_TEMPLATE_format (lit ''https'') candidate) patterns
            in if allow_http
               then insert (HOST_PATTERN_TEMPLATE_format (lit ''http'') candidate) patterns1
               else patterns1)"

fun normalize_loop :: "bool \<Rightarrow> str list \<Rightarrow> str set \<Rightarrow> str set" where
  "normalize_loop allow_http [] patterns = patterns"
| "normalize_loop allow_http (raw # hosts) patterns =
     normalize_loop allow_http hosts (normalize_body allow_http raw patterns)"

text \<open>\<open>sorted(patterns)\<close> on a set of strings is the ascending list of its elements.\<close>

definition normalize_host_patterns :: "str list \<Rightarrow> bool \<Rightarrow> str list" where
  "normalize_host_patterns hosts allow_http =
     sorted_list_of_set (normalize_loop allow_http hosts {})"

section \<open>Python values and the manifest\<close>

text \<open>
  What \<open>json.load\<close> returns: \<open>None\<close>, a bool, an int, a float, a string, a list or a
  dict with string keys. A dict keeps its keys in insertion order, so it is an
  association list; \<open>d[k] = v\<close> replaces the value of an existing key in place and
  appends a new key at the end (\<open>AList.update\<close>). The tool never computes with a float,
  which is kept as its 64 bits.
\<close>

datatype pyval =
    PyNone
  | PyBool bool
  | PyInt int
  | PyFloat "64 word"
  | PyStr str
  | PyList "pyval list"
  | PyDict "(str \<times> pyval) list"

datatype error =
    SystemExit str
  | FileNotFoundError "str list"
  | FileExistsError "str list"
  | NotADirectoryError "str list"
  | IsADirectoryError "str list"
  | JSONDecodeError
  | TypeError
  | AttributeError

text \<open>\<open>manifest[key] = value\<close>: only a dict supports item assignment with a string key.\<close>

fun setitem :: "pyval \<Rightarrow> str \<Rightarrow> pyval \<Rightarrow> error + pyval" where
  "setitem (PyDict kvs) key v = Inr (PyDict (AList.update key v kvs))"
| "setitem m key v = Inl TypeError"

text \<open>\<open>manifest.get(key, default)\<close>: only a dict has the method.\<close>

fun get :: "pyval \<Rightarrow> str \<Rightarrow> pyval \<Rightarrow> error + pyval" where
  "get (PyDict kvs) key dflt = Inr (case map_of kvs key of None \<Rightarrow> dflt | Some v \<Rightarrow> v)"
| "get m key dflt = Inl AttributeError"

section \<open>The file system and the run's effects\<close>

text \<open>
  A path is the list of its components below the root. A regular file holds bytes, or
  is a zip archive, kept as the list of its entries (name and content) in the order
  they were written. The file system is an association list from paths to nodes, read
  with \<open>node_at\<close>; the root always is a directory.
\<close>

type_synonym path = "str list"

datatype content = Bytes "nat list" | Zip "(str \<times> content) list"

datatype node = Dir | File content

type_synonym filesystem = "(path \<times> node) list"

definition node_at :: "filesystem \<Rightarrow> path \<Rightarrow> node option" where
  "node_at fs p = (if p = [] then Some Dir else map_of fs p)"

definition parent :: "path \<Rightarrow> path" where
  "parent p = butlast p"

text \<open>\<open>PurePath.as_posix\<close> of a relative path, and \<open>str\<close> of a path.\<close>

fun as_posix :: "path \<Rightarrow> str" where
  "as_posix [] = lit ''.''"
| "as_posix [c] = c"
| "as_posix (c # cs) = c @ lit ''/'' @ as_posix cs"

definition path_str :: "path \<Rightarrow> str" where
  "path_str p = (if p = [] then lit ''/'' else lit ''/'' @ as_posix p)"

definition relative_to :: "path \<Rightarrow> path \<Rightarrow> path" where
  "relative_to p base = drop (length base) p"

text \<open>
  Every call the run makes to the operating system is recorded, in order, in the trace
  of the world, next to the file system it leaves.
\<close>

datatype event =
    Stat path
  | Print str
  | MkTemp path
  | CopyTree path path
  | OpenRead path
  | OpenWrite path
  | Mkdir path
  | ListDir path
  | RmTree path

record world =
  files :: filesystem
  trace :: "event list"

text \<open>A step of the run either raises or returns a value, and leaves a world.\<close>

type_synonym 'a io = "world \<Rightarrow> (error + 'a) \<times> world"

definition io_return :: "'a \<Rightarrow> 'a io" where
  "io_return x w = (Inr x, w)"

definition io_raise :: "error \<Rightarrow> 'a io" where
  "io_raise e w = (Inl e, w)"

definition io_bind :: "'a io \<Rightarrow> ('a \<Rightarrow> 'b io) \<Rightarrow> 'b io" where
  "io_bind m k w = (case m w of (Inl e, w') \<Rightarrow> (Inl e, w') | (Inr x, w') \<Rightarrow> k x w')"

definition io_of :: "error + 'a \<Rightarrow> 'a io" where
  "io_of r = (case r of Inl e \<Rightarrow> io_raise e | Inr x \<Rightarrow> io_return x)"

definition emit :: "event \<Rightarrow> world \<Rightarrow> world" where
  "emit ev w = w\<lparr>trace := trace w @ [ev]\<rparr>"

definition print :: "str \<Rightarrow> unit io" where
  "print s w = (Inr (), emit (Print s) w)"

text \<open>\<open>Path.exists\<close>.\<close>

definition path_exists :: "path \<Rightarrow> bool io" where
  "path_exists p w = (Inr (node_at (files w) p \<noteq> None), emit (Stat p) w)"

text \<open>
  \<open>tempfile.TemporaryDirectory\<close> as a context manager: the directory is made under the
  name \<open>tmp\<close> that the operating system picks (an unused one; if none is left the
  call raises), and on every way out of the block the directory and all below it are
  removed.
\<close>

definition mkdtemp :: "path \<Rightarrow> unit io" where
  "mkdtemp tmp w =
     (if node_at (files w) tmp \<noteq> None then (Inl (FileExistsError tmp), w)
      else (Inr (), emit (MkTemp tmp) (w\<lparr>files := files w @ [(tmp, Dir)]\<rparr>)))"

definition rmtree :: "path \<Rightarrow> world \<Rightarrow> world" where
  "rmtree d w = emit (RmTree d) (w\<lparr>files := filter (\<lambda>(p, n). \<not> prefix d p) (files w)\<rparr>)"

definition with_TemporaryDirectory :: "path \<Rightarrow> (path \<Rightarrow> 'a io) \<Rightarrow> 'a io" where
  "with_TemporaryDirectory tmp body =
     io_bind (mkdtemp tmp) (\<lambda>_ w. case body tmp w of (r, w') \<Rightarrow> (r, rmtree tmp w'))"

text \<open>
  \<open>shutil.copytree(src, dst)\<close> for a destination outside the source tree: the source
  must be a directory and the destination must not exist; every node at or below the
  source is copied to the same place below the destination.
\<close>

definition copytree :: "path \<Rightarrow> path \<Rightarrow> unit io" where
  "copytree src dst w =
     (let w1 = emit (CopyTree src dst) w in
      case node_at (files w) src of
        None \<Rightarrow> (Inl (FileNotFoundError src), w1)
      | Some (File c) \<Rightarrow> (Inl (NotADirectoryError src), w1)
      | Some Dir \<Rightarrow>
          if node_at (files w) dst \<noteq> None then (Inl (FileExistsError dst), w1)
          else (Inr (), w1\<lparr>files := files w @
                  map (\<lambda>(p, n). (dst @ relative_to p src, n))
                      (filter (\<lambda>(p, n). prefix src p) (files w))\<rparr>))"

text \<open>\<open>path.open("r")\<close> followed by reading the whole file.\<close>

definition read_file :: "path \<Rightarrow> content io" where
  "read_file p w =
     (let w1 = emit (OpenRead p) w in
      case node_at (files w) p of
        None \<Rightarrow> (Inl (FileNotFoundError p), w1)
      | Some Dir \<Rightarrow> (Inl (IsADirectoryError p), w1)
      | Some (File c) \<Rightarrow> (Inr c, w1))"

text \<open>\<open>path.open("w")\<close>, writing the content and closing: the file is created or
  replaced; its directory must exist.\<close>

definition write_file :: "path \<Rightarrow> content \<Rightarrow> unit io" where
  "write_file p c w =
     (let w1 = emit (OpenWrite p) w in
      if node_at (files w) p = Some Dir then (Inl (IsADirectoryError p), w1)
      else if node_at (files w) (parent p) = None then (Inl (FileNotFoundError p), w1)
      else if node_at (files w) (parent p) \<noteq> Some Dir then (Inl (NotADirectoryError p), w1)
      else (Inr (), w1\<lparr>files := AList.update p (File c) (files w)\<rparr>))"

text \<open>\<open>path.mkdir(parents=True, exist_ok=True)\<close>: every missing directory on the way
  down to the path is made; a regular file on the way is an error.\<close>

fun mkdir_chain :: "path list \<Rightarrow> filesystem \<Rightarrow> error + filesystem" where
  "mkdir_chain [] fs = Inr fs"
| "mkdir_chain (q # qs) fs =
     (case node_at fs q of
        Some (File c) \<Rightarrow> Inl (if qs = [] then FileExistsError q else NotADirectoryError q)
      | Some Dir \<Rightarrow> mkdir_chain qs fs
      | None \<Rightarrow> mkdir_chain qs (fs @ [(q, Dir)]))"

definition mkdir_parents :: "path \<Rightarrow> unit io" where
  "mkdir_parents p w =
     (let w1 = emit (Mkdir p) w in
      case mkdir_chain (prefixes p) (files w) of
        Inl e \<Rightarrow> (Inl e, w1)
      | Inr fs \<Rightarrow> (Inr (), w1\<lparr>files := fs\<rparr>))"

text \<open>\<open>source_dir.rglob("*")\<close>: every path strictly below the directory.\<close>

definition rglob :: "path \<Rightarrow> path list io" where
  "rglob d w =
     (Inr (remdups (map fst (filter (\<lambda>(p, n). strict_prefix d p) (files w)))),
      emit (ListDir d) w)"

section \<open>The packager\<close>

text \<open>
  The result of \<open>parse_args\<close>; \<open>output_file\<close> is \<open>args.output\<close>, and \<open>version\<close> is \<open>None\<close>
  when the option was not given. Paths are resolved against the current directory.
\<close>

record args =
  output_file :: path
  hosts :: "str list"
  allow_http :: bool
  version :: "str option"
  dry_run :: bool

text \<open>
  What the run takes from outside the repository: the directory the script's
  \<open>REPO_ROOT\<close> resolves to, the name of the temporary directory, and the \<open>json\<close>
  module (\<open>json.load\<close> on the content of a file, \<open>json.dumps\<close> with \<open>indent=2\<close>, whose
  output is ASCII text).
\<close>

record env =
  REPO_ROOT :: path
  tmpdir :: path
  json_load :: "content \<Rightarrow> error + pyval"
  json_dumps :: "pyval \<Rightarrow> str"

definition EXTENSION_DIR :: "env \<Rightarrow> path" where
  "EXTENSION_DIR env = REPO_ROOT env @ [lit ''extension'']"

definition validate_environment :: "env \<Rightarrow> unit io" where
  "validate_environment env =
     io_bind (path_exists (EXTENSION_DIR env)) (\<lambda>ex.
       if \<not> ex
       then io_raise (SystemExit (lit ''Extension directory not found: ''
                                   @ path_str (EXTENSION_DIR env)))
       else io_return ())"

definition load_manifest :: "env \<Rightarrow> path \<Rightarrow> pyval io" where
  "load_manifest env p = io_bind (read_file p) (\<lambda>c. io_of (json_load env c))"

text \<open>\<open>json.dump(manifest, handle, indent=2)\<close> and then a newline (code point 10).\<close>

definition write_manifest :: "env \<Rightarrow> path \<Rightarrow> pyval \<Rightarrow> unit io" where
  "write_manifest env p manifest = write_file p (Bytes (json_dumps env manifest @ [10]))"

text \<open>
  The loop of \<open>create_archive\<close> over the sorted paths: a directory is skipped, a file
  is stored under its path relative to the source directory.
\<close>

fun zip_entries :: "filesystem \<Rightarrow> path \<Rightarrow> path list \<Rightarrow> error + (str \<times> content) list" where
  "zip_entries fs source_dir [] = Inr []"
| "zip_entries fs source_dir (file_path # rest) =
     (case node_at fs file_path of
        Some Dir \<Rightarrow> zip_entries fs source_dir rest
      | Some (File c) \<Rightarrow>
          (case zip_entries fs source_dir rest of
             Inl e \<Rightarrow> Inl e
           | Inr es \<Rightarrow> Inr ((as_posix (relative_to file_path source_dir), c) # es))
      | None \<Rightarrow> Inl (FileNotFoundError file_path))"

definition create_archive :: "path \<Rightarrow> path \<Rightarrow> unit io" where
  "create_archive source_dir output_path =
     io_bind (mkdir_parents (parent output_path)) (\<lambda>_.
     io_bind (write_file output_path (Zip [])) (\<lambda>_.
     io_bind (rglob source_dir) (\<lambda>paths w.
       case zip_entries (files w) source_dir (sort paths) of
         Inl e \<Rightarrow> (Inl e, w)
       | Inr es \<Rightarrow> (Inr (), w\<lparr>files := AList.update output_path (File (Zip es)) (files w)\<rparr>))))"

text \<open>Lines 138 to 142 of \<open>main\<close>: \<open>if args.version:\<close> holds for a string that is
  not empty, \<open>if host_patterns:\<close> for a list that is not empty.\<close>

definition override_version :: "str option \<Rightarrow> pyval \<Rightarrow> error + pyval" where
  "override_version v manifest =
     (case v of
        None \<Rightarrow> Inr manifest
      | Some s \<Rightarrow> if s = [] then Inr manifest else setitem manifest (lit ''version'') (PyStr s))"

definition override_hosts :: "str list \<Rightarrow> pyval \<Rightarrow> error + pyval" where
  "override_hosts host_patterns manifest =
     (if host_patterns = [] then Inr manifest
      else setitem manifest (lit ''host_permissions'') (PyList (map PyStr host_patterns)))"

text \<open>The body of the \<open>with\<close> block of \<open>main\<close>, and the value \<open>main\<close> returns after it.\<close>

definition packaging :: "env \<Rightarrow> args \<Rightarrow> str list \<Rightarrow> path \<Rightarrow> int io" where
  "packaging env args host_patterns tmp_dir_path =
     (let working_dir = tmp_dir_path @ [lit ''extension''];
          manifest_path = working_dir @ [lit ''manifest.json'']
      in
      io_bind (copytree (EXTENSION_DIR env) working_dir) (\<lambda>_.
      io_bind (load_manifest env manifest_path) (\<lambda>manifest.
      io_bind (io_of (override_version (version args) manifest)) (\<lambda>manifest1.
      io_bind (io_of (override_hosts host_patterns manifest1)) (\<lambda>manifest2.
        if dry_run args then
          io_bind (print (lit ''Manifest preview:'')) (\<lambda>_.
          io_bind (io_of (get manifest2 (lit ''version'') PyNone)) (\<lambda>v.
          io_bind (io_of (get manifest2 (lit ''host_permissions'') (PyList []))) (\<lambda>hp.
          io_bind (print (json_dumps env
                     (PyDict [(lit ''version'', v), (lit ''host_permissions'', hp)]))) (\<lambda>_.
          io_return 0))))
        else
          io_bind (write_manifest env manifest_path manifest2) (\<lambda>_.
          io_bind (create_archive working_dir (output_file args)) (\<lambda>_.
          io_bind (print (lit ''Created package: '' @ path_str (output_file args))) (\<lambda>_.
          io_return 0))))))))"

definition main :: "env \<Rightarrow> args \<Rightarrow> int io" where
  "main env args =
     io_bind (validate_environment env) (\<lambda>_.
     io_bind (if dry_run args
              then print (lit ''Running in dry-run mode; no files will be written.'')
              else io_return ()) (\<lambda>_.
     let host_patterns = normalize_host_patterns (hosts args) (allow_http args) in
     with_TemporaryDirectory (tmpdir env) (packaging env args host_patterns)))"

text \<open>\<open>sys.exit(main())\<close>: the status is the value returned; a run that ends by
  \<open>SystemExit\<close> with a message, or by any other exception, has status 1.\<close>

definition exit_status :: "error + int \<Rightarrow> int" where
  "exit_status r = (case r of Inl e \<Rightarrow> 1 | Inr n \<Rightarrow> n)"

section \<open>Notions used in the statements\<close>

text \<open>The test of line 80 on a trimmed value: a full pattern, as opposed to a bare host.\<close>

definition is_full :: "str \<Rightarrow> bool" where
  "is_full c \<longleftrightarrow>
     startswith (lower c) (lit ''http://'') \<or> startswith (lower c) (lit ''https://'')"

text \<open>
  The name of the temporary directory is unused: the file system holds nothing at or
  below it (what \<open>mkdtemp\<close> guarantees for the name it picks).
\<close>

definition fresh :: "path \<Rightarrow> filesystem \<Rightarrow> bool" where
  "fresh T fs \<longleftrightarrow> T \<noteq> [] \<and> (\<forall>p \<in> fst ` set fs. \<not> prefix T p)"

text \<open>What \<open>copytree\<close> adds: the nodes at or below \<open>E\<close>, moved below \<open>W\<close>; and the file
  system once the temporary directory is made and the extension tree copied into it.\<close>

definition copies :: "path \<Rightarrow> path \<Rightarrow> filesystem \<Rightarrow> filesystem" where
  "copies W E fs = map (\<lambda>(p, n). (W @ relative_to p E, n)) (filter (\<lambda>(p, n). prefix E p) fs)"

definition staged :: "path \<Rightarrow> path \<Rightarrow> filesystem \<Rightarrow> filesystem" where
  "staged T E fs = fs @ [(T, Dir)] @ copies (T @ [lit ''extension'']) E fs"

text \<open>The dict after lines 138 to 142 have run on a loaded dict.\<close>

definition edited :: "str option \<Rightarrow> str list \<Rightarrow> (str \<times> pyval) list \<Rightarrow> (str \<times> pyval) list" where
  "edited v ps kvs =
     (let kvs1 = (case v of None \<Rightarrow> kvs
                  | Some s \<Rightarrow> if s = [] then kvs else AList.update (lit ''version'') (PyStr s) kvs)
      in if ps = [] then kvs1
         else AList.update (lit ''host_permissions'') (PyList (map PyStr ps)) kvs1)"

text \<open>
  A small concrete run, to evaluate the model on: an extension tree with a manifest and
  an icon, a \<open>json.load\<close> that knows the one manifest text, and a \<open>json.dumps\<close> that
  writes each key of a dict with its string value.
\<close>

definition demo_env :: env where
  "demo_env = \<lparr>REPO_ROOT = [lit ''repo''], tmpdir = [lit ''tmp'', lit ''tmpa1b2c3''],
     json_load = (\<lambda>c. if c = Bytes (lit ''{old}'')
        then Inr (PyDict [(lit ''name'', PyStr (lit ''agent'')),
                          (lit ''version'', PyStr (lit ''1.0'')),
                          (lit ''host_permissions'', PyList [PyStr (lit ''https://old/*'')])])
        else Inl JSONDecodeError),
     json_dumps = (\<lambda>v. case v of
          PyDict kvs \<Rightarrow> concat (map (\<lambda>(k, x). k @ lit ''='' @
              (case x of PyStr s \<Rightarrow> s | PyList xs \<Rightarrow> concat (map (\<lambda>y. case y of PyStr s \<Rightarrow> s | _ \<Rightarrow> lit ''?'') xs) | _ \<Rightarrow> lit ''?'') @ lit '';'') kvs)
        | _ \<Rightarrow> lit ''?'')\<rparr>"

definition demo_world :: world where
  "demo_world = \<lparr>files =
      [([lit ''repo''], Dir),
       ([lit ''repo'', lit ''extension''], Dir),
       ([lit ''repo'', lit ''extension'', lit ''manifest.json''], File (Bytes (lit ''{old}''))),
       ([lit ''repo'', lit ''extension'', lit ''assets''], Dir),
       ([lit ''repo'', lit ''extension'', lit ''assets'', lit ''icon.png''], File (Bytes (lit ''PNG'')))],
     trace = []\<rparr>"

definition demo_args :: args where
  "demo_args = \<lparr>output_file = [lit ''repo'', lit ''dist'', lit ''agent.zip''], hosts = [],
     allow_http = False, version = None, dry_run = False\<rparr>"

section \<open>Properties of the pattern normalizer\<close>

lemma lit_simps:
  "lit ''/*'' = [47, 42]" "lit ''/'' = [47]" "lit ''*'' = [42]" "lit ''://'' = [58, 47, 47]"
  "lit ''https'' = [104, 116, 116, 112, 115]" "lit ''http'' = [104, 116, 116, 112]"
  "lit ''http://'' = [104, 116, 116, 112, 58, 47, 47]"
  "lit ''https://'' = [104, 116, 116, 112, 115, 58, 47, 47]"
  by (simp_all add: lit_def)

text \<open>The loop only ever adds to the set: the result is the start set together with
  what each entry contributes on its own.\<close>

lemma normalize_body_union:
  "normalize_body f raw S = S \<union> normalize_body f raw {}"
  by (auto simp: normalize_body_def Let_def)

lemma normalize_loop_union:
  "normalize_loop f hs S = S \<union> (\<Union>raw \<in> set hs. normalize_body f raw {})"
proof (induction hs arbitrary: S)
  case Nil
  show ?case by simp
next
  case (Cons raw hs)
  have "normalize_loop f (raw # hs) S = normalize_loop f hs (normalize_body f raw S)" by simp
  also have "\<dots> = normalize_body f raw S \<union> (\<Union>r \<in> set hs. normalize_body f r {})"
    by (rule Cons.IH)
  also have "\<dots> = S \<union> (\<Union>r \<in> set (raw # hs). normalize_body f r {})"
    using normalize_body_union [of f raw S] by auto
  finally show ?case .
qed

lemma finite_normalize_body: "finite (normalize_body f raw {})"
  by (simp add: normalize_body_def Let_def)

lemma finite_normalize_loop: "finite S \<Longrightarrow> finite (normalize_loop f hs S)"
  by (simp add: normalize_loop_union finite_normalize_body)

lemma set_normalize_host_patterns:
  "set (normalize_host_patterns hs f) = (\<Union>raw \<in> set hs. normalize_body f raw {})"
proof -
  have "finite (normalize_loop f hs {})" by (simp add: finite_normalize_loop)
  then have "set (normalize_host_patterns hs f) = normalize_loop f hs {}"
    by (simp add: normalize_host_patterns_def)
  then show ?thesis by (simp add: normalize_loop_union)
qed

lemma endswith_ensure_trailing_wildcard:
  "endswith (ensure_trailing_wildcard p) (lit ''/*'')"
  by (auto simp: ensure_trailing_wildcard_def endswith_def lit_simps suffix_def)

lemma endswith_format: "endswith (HOST_PATTERN_TEMPLATE_format s h) (lit ''/*'')"
  by (simp add: HOST_PATTERN_TEMPLATE_format_def endswith_def suffix_def)

lemma normalize_body_endswith:
  "p \<in> normalize_body f raw {} \<Longrightarrow> endswith p (lit ''/*'')"
  by (auto simp: normalize_body_def Let_def endswith_ensure_trailing_wildcard endswith_format
      split: if_splits)

text \<open>What an entry contributes in each of the three ways through the loop body.\<close>

lemma normalize_body_full:
  assumes "is_full (strip raw)"
  shows "normalize_body f raw {} = {ensure_trailing_wildcard (strip raw)}"
proof -
  from assms have "strip raw \<noteq> []"
    by (auto simp: is_full_def startswith_def lower_def lit_simps)
  moreover from this have "raw \<noteq> []" by (auto simp: strip_def)
  ultimately show ?thesis using assms
    by (simp add: normalize_body_def Let_def is_full_def)
qed

lemma normalize_body_bare:
  assumes "strip raw \<noteq> []" "\<not> is_full (strip raw)"
  shows "normalize_body f raw {} =
    (if f then {HOST_PATTERN_TEMPLATE_format (lit ''https'') (strip raw),
                HOST_PATTERN_TEMPLATE_format (lit ''http'') (strip raw)}
     else {HOST_PATTERN_TEMPLATE_format (lit ''https'') (strip raw)})"
proof -
  from assms have "raw \<noteq> []" by (auto simp: strip_def)
  then show ?thesis using assms
    by (auto simp add: normalize_body_def Let_def is_full_def)
qed

lemma normalize_body_skip:
  assumes "strip raw = []"
  shows "normalize_body f raw {} = {}"
  using assms by (simp add: normalize_body_def Let_def)

lemma format_https_neq_http:
  "HOST_PATTERN_TEMPLATE_format (lit ''https'') a \<noteq> HOST_PATTERN_TEMPLATE_format (lit ''http'') b"
  by (simp add: HOST_PATTERN_TEMPLATE_format_def lit_simps)

text \<open>Every emitted pattern is a full pattern with the wildcard, and such a string is
  left as it is by the loop body.\<close>

lemma strip_id:
  assumes "p \<noteq> []" "\<not> isspace (hd p)" "\<not> isspace (last p)"
  shows "strip p = p"
proof -
  have "dropWhile isspace p = p" using assms by (cases p) auto
  moreover have "hd (rev p) = last p" using assms(1) by (simp add: hd_rev)
  then have "dropWhile isspace (rev p) = rev p"
    using assms by (simp add: dropWhile_eq_self_iff)
  ultimately show ?thesis by (simp add: strip_def)
qed

lemma is_full_hd:
  assumes "is_full c"
  shows "c \<noteq> [] \<and> \<not> isspace (hd c)"
proof -
  from assms obtain x xs where c: "c = x # xs" and "lower_cp x = 104"
    by (cases c) (auto simp: is_full_def startswith_def lower_def lit_simps)
  then have "x = 104 \<or> x = 72" by (auto simp: lower_cp_def split: if_splits)
  then show ?thesis using c by (auto simp: isspace_def)
qed

lemma is_full_append: "is_full c \<Longrightarrow> is_full (c @ x)"
  by (auto simp: is_full_def startswith_def lower_def)

lemma is_full_format:
  "is_full (HOST_PATTERN_TEMPLATE_format (lit ''https'') h)"
  "is_full (HOST_PATTERN_TEMPLATE_format (lit ''http'') h)"
  by (simp_all add: is_full_def startswith_def lower_def HOST_PATTERN_TEMPLATE_format_def
      lit_simps lower_cp_def)

lemma is_full_ensure: "is_full c \<Longrightarrow> is_full (ensure_trailing_wildcard c)"
  by (simp add: ensure_trailing_wildcard_def is_full_append)

lemma endswith_last:
  assumes "endswith p (lit ''/*'')"
  shows "last p = 42"
  using assms by (auto simp: endswith_def suffix_def lit_simps)

lemma emitted_full:
  assumes "p \<in> normalize_body f raw {}"
  shows "is_full p"
  using assms
  by (auto simp: normalize_body_def Let_def is_full_format is_full_ensure
      is_full_def [of "strip raw"] split: if_splits)

lemma full_wildcard_fixed:
  assumes "is_full p" "endswith p (lit ''/*'')"
  shows "normalize_body f p {} = {p}"
proof -
  have "p \<noteq> []" "\<not> isspace (hd p)" using is_full_hd [OF assms(1)] by simp_all
  moreover have "\<not> isspace (last p)"
    using endswith_last [OF assms(2)] by (simp add: isspace_def)
  ultimately have "strip p = p" by (rule strip_id)
  then show ?thesis
    using normalize_body_full [of p f] assms by (simp add: ensure_trailing_wildcard_def)
qed

lemma emitted_fixed:
  assumes "p \<in> set (normalize_host_patterns hs f)"
  shows "normalize_body g p {} = {p}"
proof -
  from assms obtain raw where "p \<in> normalize_body f raw {}"
    by (auto simp: set_normalize_host_patterns)
  then show ?thesis
    by (intro full_wildcard_fixed emitted_full normalize_body_endswith)
qed

text \<open>
  Claim C1. For every list of raw host strings and every value of the flag, the list
  returned by \<open>normalize_host_patterns\<close> has no duplicates and is sorted ascending in
  the lexicographic order of its strings; each pattern is strictly below the ones after
  it.
\<close>

theorem normalize_distinct_sorted:
  "distinct (normalize_host_patterns hs f) \<and> sorted (normalize_host_patterns hs f)
   \<and> sorted_wrt (\<lambda>a b. (a, b) \<in> lexord {(u, v). u < v}) (normalize_host_patterns hs f)"
proof -
  have "sorted_wrt (<) (normalize_host_patterns hs f)"
    by (simp add: normalize_host_patterns_def)
  moreover have "(<) = (\<lambda>a b :: str. (a, b) \<in> lexord {(u, v). u < v})"
    by (intro ext) (simp add: list_less_def)
  ultimately have
    "sorted_wrt (\<lambda>a b. (a, b) \<in> lexord {(u, v). u < v}) (normalize_host_patterns hs f)"
    by simp
  then show ?thesis
    by (simp add: normalize_host_patterns_def)
qed

theorem normalize_distinct_sorted_witness:
  "normalize_host_patterns [lit ''foo.com'', lit ''bar.org'', lit ''foo.com''] True =
     [lit ''http://bar.org/*'', lit ''http://foo.com/*'',
      lit ''https://bar.org/*'', lit ''https://foo.com/*'']
   \<and> distinct (normalize_host_patterns [lit ''foo.com'', lit ''bar.org'', lit ''foo.com''] True)
   \<and> sorted (normalize_host_patterns [lit ''foo.com'', lit ''bar.org'', lit ''foo.com''] True)"
proof -
  have "normalize_host_patterns [lit ''foo.com'', lit ''bar.org'', lit ''foo.com''] True =
     [lit ''http://bar.org/*'', lit ''http://foo.com/*'',
      lit ''https://bar.org/*'', lit ''https://foo.com/*'']"
    by code_simp
  then show ?thesis
    using normalize_distinct_sorted [of "[lit ''foo.com'', lit ''bar.org'', lit ''foo.com'']" True]
    by simp
qed

text \<open>
  Claim C2, as the code has it. Let an entry of the list have the trimmed value \<open>h\<close>,
  not empty and not starting with \<open>http://\<close> or \<open>https://\<close> in any case. Without the
  flag the output contains \<open>https://h/*\<close>, and it contains \<open>http://h/*\<close> exactly when
  some entry of the list is itself a full pattern that is normalized to that string;
  for the entry alone the output is \<open>https://h/*\<close> and nothing else. With the flag the
  output contains both patterns.
\<close>

theorem bare_host_patterns:
  assumes "raw \<in> set hs" and "h = strip raw" and "h \<noteq> []"
    and "\<not> startswith (lower h) (lit ''http://'')"
    and "\<not> startswith (lower h) (lit ''https://'')"
  shows "HOST_PATTERN_TEMPLATE_format (lit ''https'') h \<in> set (normalize_host_patterns hs False)
    \<and> (HOST_PATTERN_TEMPLATE_format (lit ''http'') h \<in> set (normalize_host_patterns hs False)
        \<longleftrightarrow> (\<exists>r \<in> set hs.
              (startswith (lower (strip r)) (lit ''http://'')
                \<or> startswith (lower (strip r)) (lit ''https://''))
              \<and> ensure_trailing_wildcard (strip r) = HOST_PATTERN_TEMPLATE_format (lit ''http'') h))
    \<and> normalize_host_patterns [raw] False = [HOST_PATTERN_TEMPLATE_format (lit ''https'') h]
    \<and> HOST_PATTERN_TEMPLATE_format (lit ''https'') h \<in> set (normalize_host_patterns hs True)
    \<and> HOST_PATTERN_TEMPLATE_format (lit ''http'') h \<in> set (normalize_host_patterns hs True)"
proof -
  let ?https = "HOST_PATTERN_TEMPLATE_format (lit ''https'') h"
  let ?http = "HOST_PATTERN_TEMPLATE_format (lit ''http'') h"
  have bare: "strip raw \<noteq> []" "\<not> is_full (strip raw)"
    using assms by (simp_all add: is_full_def)
  have b: "normalize_body f raw {} = (if f then {?https, ?http} else {?https})" for f
    using normalize_body_bare [OF bare, of f] assms(2) by simp
  have 1: "?https \<in> set (normalize_host_patterns hs False)"
    using assms(1) b [of False] by (auto simp: set_normalize_host_patterns)
  have 4: "?https \<in> set (normalize_host_patterns hs True)"
    using assms(1) b [of True] by (auto simp: set_normalize_host_patterns)
  have 5: "?http \<in> set (normalize_host_patterns hs True)"
    using assms(1) b [of True] by (auto simp: set_normalize_host_patterns)
  have 3: "normalize_host_patterns [raw] False = [?https]"
    using b [of False] by (simp add: normalize_host_patterns_def normalize_loop_union)
  have contrib: "?http \<in> normalize_body False r {} \<longleftrightarrow>
      is_full (strip r) \<and> ensure_trailing_wildcard (strip r) = ?http" for r
  proof (cases "strip r = []")
    case True
    then show ?thesis
      by (auto simp: normalize_body_skip is_full_def startswith_def lower_def lit_simps)
  next
    case False
    show ?thesis
    proof (cases "is_full (strip r)")
      case True
      then show ?thesis by (auto simp: normalize_body_full)
    next
      case nf: False
      show ?thesis
        using normalize_body_bare [OF False nf, of False] nf
          format_https_neq_http [of "strip r" h]
        by auto
    qed
  qed
  have 2: "?http \<in> set (normalize_host_patterns hs False) \<longleftrightarrow>
      (\<exists>r \<in> set hs. (startswith (lower (strip r)) (lit ''http://'')
                \<or> startswith (lower (strip r)) (lit ''https://''))
              \<and> ensure_trailing_wildcard (strip r) = ?http)"
    using contrib by (auto simp: set_normalize_host_patterns is_full_def)
  from 1 2 3 4 5 show ?thesis by blast
qed

theorem bare_host_patterns_witness:
  "normalize_host_patterns [lit '' foo.com ''] False = [lit ''https://foo.com/*'']
   \<and> lit ''https://foo.com/*'' \<in> set (normalize_host_patterns [lit '' foo.com ''] True)
   \<and> lit ''http://foo.com/*'' \<in> set (normalize_host_patterns [lit '' foo.com ''] True)"
proof -
  have 1: "lit '' foo.com '' \<in> set [lit '' foo.com '']" by simp
  have 2: "lit ''foo.com'' = strip (lit '' foo.com '')" by code_simp
  have 3: "lit ''foo.com'' \<noteq> []" by code_simp
  have 4: "\<not> startswith (lower (lit ''foo.com'')) (lit ''http://'')" by code_simp
  have 5: "\<not> startswith (lower (lit ''foo.com'')) (lit ''https://'')" by code_simp
  have 6: "HOST_PATTERN_TEMPLATE_format (lit ''https'') (lit ''foo.com'') = lit ''https://foo.com/*''"
    by code_simp
  have 7: "HOST_PATTERN_TEMPLATE_format (lit ''http'') (lit ''foo.com'') = lit ''http://foo.com/*''"
    by code_simp
  show ?thesis using bare_host_patterns [OF 1 2 3 4 5] unfolding 6 7 by blast
qed

text \<open>
  The claim as it is written fails on a list that holds a bare host and the same host
  as a full insecure pattern: without the flag the output contains \<open>http://h/*\<close>.
\<close>

theorem bare_host_insecure_counterexample:
  "lit ''h'' \<in> set [lit ''h'', lit ''http://h'']
   \<and> strip (lit ''h'') = lit ''h'' \<and> lit ''h'' \<noteq> []
   \<and> \<not> startswith (lower (lit ''h'')) (lit ''http://'')
   \<and> \<not> startswith (lower (lit ''h'')) (lit ''https://'')
   \<and> normalize_host_patterns [lit ''h'', lit ''http://h''] False
       = [lit ''http://h/*'', lit ''https://h/*'']
   \<and> lit ''http://h/*'' \<in> set (normalize_host_patterns [lit ''h'', lit ''http://h''] False)"
  by code_simp

text \<open>
  Claim C3. For every entry whose trimmed value \<open>c\<close> starts with \<open>http://\<close> or
  \<open>https://\<close> in any case, the output contains \<open>c\<close> itself if \<open>c\<close> ends with \<open>/*\<close>,
  \<open>c\<close> followed by \<open>*\<close> if \<open>c\<close> ends with \<open>/\<close>, and \<open>c\<close> followed by \<open>/*\<close> otherwise.
\<close>

theorem full_pattern_wildcard:
  assumes "raw \<in> set hs" and "c = strip raw"
    and "startswith (lower c) (lit ''http://'') \<or> startswith (lower c) (lit ''https://'')"
  shows "(if endswith c (lit ''/*'') then c
          else if endswith c (lit ''/'') then c @ lit ''*''
          else c @ lit ''/*'') \<in> set (normalize_host_patterns hs f)"
proof -
  have "normalize_body f raw {} = {ensure_trailing_wildcard c}"
    using assms(2,3) normalize_body_full [of raw f] by (simp add: is_full_def)
  then have "ensure_trailing_wildcard c \<in> set (normalize_host_patterns hs f)"
    using assms(1) by (auto simp: set_normalize_host_patterns)
  then show ?thesis by (simp add: ensure_trailing_wildcard_def)
qed

theorem full_pattern_wildcard_witness:
  "lit ''HTTPS://a.example/v1/*'' \<in> set (normalize_host_patterns [lit '' HTTPS://a.example/v1/''] False)"
proof -
  have 1: "lit '' HTTPS://a.example/v1/'' \<in> set [lit '' HTTPS://a.example/v1/'']" by simp
  have 2: "lit ''HTTPS://a.example/v1/'' = strip (lit '' HTTPS://a.example/v1/'')" by code_simp
  have 3: "startswith (lower (lit ''HTTPS://a.example/v1/'')) (lit ''http://'')
      \<or> startswith (lower (lit ''HTTPS://a.example/v1/'')) (lit ''https://'')" by code_simp
  have 4: "(if endswith (lit ''HTTPS://a.example/v1/'') (lit ''/*'') then lit ''HTTPS://a.example/v1/''
          else if endswith (lit ''HTTPS://a.example/v1/'') (lit ''/'')
               then lit ''HTTPS://a.example/v1/'' @ lit ''*''
          else lit ''HTTPS://a.example/v1/'' @ lit ''/*'') = lit ''HTTPS://a.example/v1/*''"
    by code_simp
  show ?thesis using full_pattern_wildcard [OF 1 2 3, of False] unfolding 4 .
qed

text \<open>
  Claim C4. Normalizing the output of the normalizer again, with the same flag, gives
  the same list; and a string that starts with \<open>http://\<close> or \<open>https://\<close> in any case and
  ends with \<open>/*\<close> is returned unchanged, as the only pattern.
\<close>

theorem normalize_idempotent:
  "normalize_host_patterns (normalize_host_patterns hs f) f = normalize_host_patterns hs f
   \<and> ((startswith (lower x) (lit ''http://'') \<or> startswith (lower x) (lit ''https://''))
        \<and> endswith x (lit ''/*'') \<longrightarrow> normalize_host_patterns [x] f = [x])"
proof -
  let ?out = "normalize_host_patterns hs f"
  have "set (normalize_host_patterns ?out f) = (\<Union>p \<in> set ?out. normalize_body f p {})"
    by (rule set_normalize_host_patterns)
  also have "\<dots> = (\<Union>p \<in> set ?out. {p})"
    using emitted_fixed [of _ hs f f] by simp
  finally have "set (normalize_host_patterns ?out f) = set ?out" by simp
  moreover have "sorted (normalize_host_patterns ?out f)"
    "distinct (normalize_host_patterns ?out f)" "sorted ?out" "distinct ?out"
    by (simp_all add: normalize_host_patterns_def)
  ultimately have 1: "normalize_host_patterns ?out f = ?out"
    by (metis sorted_distinct_set_unique)
  have 2: "normalize_host_patterns [x] f = [x]" if "is_full x" "endswith x (lit ''/*'')"
    using full_wildcard_fixed [OF that, of f]
    by (simp add: normalize_host_patterns_def normalize_loop_union)
  from 1 2 show ?thesis by (simp add: is_full_def)
qed

theorem normalize_idempotent_witness:
  "normalize_host_patterns (normalize_host_patterns [lit ''foo.com'', lit ''Http://b/''] True) True
     = normalize_host_patterns [lit ''foo.com'', lit ''Http://b/''] True
   \<and> normalize_host_patterns [lit ''Http://b/*''] True = [lit ''Http://b/*'']"
proof -
  have "(startswith (lower (lit ''Http://b/*'')) (lit ''http://'')
          \<or> startswith (lower (lit ''Http://b/*'')) (lit ''https://''))
        \<and> endswith (lit ''Http://b/*'') (lit ''/*'')"
    by code_simp
  then show ?thesis
    using normalize_idempotent [of "[lit ''foo.com'', lit ''Http://b/'']" True "lit ''Http://b/*''"]
    by blast
qed

text \<open>
  Claim C5. For every input list and every value of the flag, every string in the
  output of \<open>normalize_host_patterns\<close> ends with \<open>/*\<close>.
\<close>

theorem emitted_ends_with_wildcard:
  "p \<in> set (normalize_host_patterns hs f) \<Longrightarrow> endswith p (lit ''/*'')"
  by (auto simp: set_normalize_host_patterns dest: normalize_body_endswith)

theorem emitted_ends_with_wildcard_witness:
  "lit ''https://api.example.com/v1/*''
     \<in> set (normalize_host_patterns [lit ''example.com'', lit ''https://api.example.com/v1''] False)
   \<and> endswith (lit ''https://api.example.com/v1/*'') (lit ''/*'')"
proof -
  have 1: "lit ''https://api.example.com/v1/*''
     \<in> set (normalize_host_patterns [lit ''example.com'', lit ''https://api.example.com/v1''] False)"
    by code_simp
  show ?thesis using 1 emitted_ends_with_wildcard [OF 1] by simp
qed

lemma normalize_body_mono_flag: "normalize_body False raw {} \<subseteq> normalize_body True raw {}"
  by (auto simp: normalize_body_def Let_def)

text \<open>
  Claim C10. For every list of raw host strings, every pattern of the output without
  the flag is also a pattern of the output with the flag.
\<close>

theorem normalize_monotone_in_flag:
  "p \<in> set (normalize_host_patterns hs False) \<Longrightarrow> p \<in> set (normalize_host_patterns hs True)"
  using normalize_body_mono_flag by (fastforce simp: set_normalize_host_patterns)

theorem normalize_monotone_in_flag_witness:
  "lit ''https://foo.com/*'' \<in> set (normalize_host_patterns [lit ''foo.com''] False)
   \<and> lit ''https://foo.com/*'' \<in> set (normalize_host_patterns [lit ''foo.com''] True)"
proof -
  have 1: "lit ''https://foo.com/*'' \<in> set (normalize_host_patterns [lit ''foo.com''] False)"
    by code_simp
  show ?thesis using 1 normalize_monotone_in_flag [OF 1] by simp
qed

section \<open>Properties of the packager\<close>

subsection \<open>A missing source directory\<close>





subsection \<open>Lookups in the staged file system\<close>

lemma map_of_filter_key:
  "map_of (filter (\<lambda>(p, n). P p) fs) q = (if P q then map_of fs q else None)"
  by (induction fs) auto

lemma copies_simps:
  "copies W E [] = []"
  "copies W E ((p, n) # fs) = (if prefix E p then (W @ relative_to p E, n) # copies W E fs else copies W E fs)"
  "copies W E (fs @ gs) = copies W E fs @ copies W E gs"
  by (simp_all add: copies_def)

lemma map_of_copies:
  "map_of (copies W E fs) q =
     (if prefix W q then map_of fs (E @ drop (length W) q) else None)"
proof (induction fs)
  case Nil
  show ?case by (simp add: copies_simps)
next
  case (Cons a fs)
  obtain p n where a: "a = (p, n)" by (cases a)
  show ?case
  proof (cases "prefix E p")
    case False
    then have "p \<noteq> E @ drop (length W) q" by auto
    with False Cons a show ?thesis by (auto simp: copies_simps)
  next
    case True
    then obtain r where p: "p = E @ r" by (auto simp: prefix_def)
    have "(W @ r = q) \<longleftrightarrow> (prefix W q \<and> E @ r = E @ drop (length W) q)"
      by (auto simp: prefix_def)
    with True Cons a p show ?thesis by (auto simp: relative_to_def copies_simps)
  qed
qed

lemma fresh_None: "fresh T fs \<Longrightarrow> prefix T q \<Longrightarrow> map_of fs q = None"
  by (auto simp: fresh_def map_of_eq_None_iff)

lemma fresh_filter: "fresh T fs \<Longrightarrow> filter (\<lambda>(p, n). \<not> prefix T p) fs = fs"
  by (induction fs) (auto simp: fresh_def)

lemma copies_filter:
  "prefix T W \<Longrightarrow> filter (\<lambda>(p, n). \<not> prefix T p) (copies W E fs) = []"
  by (induction fs) (auto simp: prefix_def copies_simps)

lemma emit_simps [simp]: "files (emit e w) = files w" "trace (emit e w) = trace w @ [e]"
  by (simp_all add: emit_def)

lemma node_at_Nil [simp]: "node_at fs [] = Some Dir"
  by (simp add: node_at_def)

lemma node_at_map_of: "q \<noteq> [] \<Longrightarrow> node_at fs q = map_of fs q"
  by (simp add: node_at_def)

lemma validate_ok:
  assumes "node_at (files w) (EXTENSION_DIR env) = Some Dir"
  shows "validate_environment env w = (Inr (), emit (Stat (EXTENSION_DIR env)) w)"
  using assms
  by (simp add: validate_environment_def io_bind_def path_exists_def io_return_def)

lemma mkdtemp_ok:
  assumes "fresh T (files w)"
  shows "mkdtemp T w = (Inr (), emit (MkTemp T) (w\<lparr>files := files w @ [(T, Dir)]\<rparr>))"
proof -
  have "T \<noteq> []" using assms by (simp add: fresh_def)
  moreover have "map_of (files w) T = None" using assms by (simp add: fresh_None)
  ultimately show ?thesis by (simp add: mkdtemp_def node_at_def)
qed

lemma staged_lookup:
  assumes "fresh T fs" "\<not> prefix E T"
  shows "map_of (staged T E fs) q =
     (if prefix (T @ [lit ''extension'']) q
      then map_of fs (E @ drop (Suc (length T)) q)
      else if q = T then Some Dir else map_of fs q)"
proof -
  define W where "W = T @ [lit ''extension'']"
  have st: "staged T E fs = fs @ [(T, Dir)] @ copies W E fs"
    by (simp add: staged_def W_def)
  have len: "length W = Suc (length T)" by (simp add: W_def)
  show ?thesis
  proof (cases "prefix W q")
    case True
    then have "prefix T q" by (auto simp: prefix_def W_def)
    then have "map_of fs q = None" using assms(1) by (rule fresh_None [rotated])
    moreover have "q \<noteq> T" using True by (auto simp: prefix_def W_def)
    ultimately show ?thesis using True
      unfolding st W_def [symmetric]
      by (simp add: map_add_def map_of_copies len split: option.splits)
  next
    case False
    have "map_of fs T = None" using assms(1) by (simp add: fresh_None)
    with False show ?thesis
      unfolding st W_def [symmetric]
      by (simp add: map_add_def map_of_copies split: option.splits)
  qed
qed

lemma copytree_ok:
  assumes "fresh T fs" "\<not> prefix E T" "node_at fs E = Some Dir" "E \<noteq> []"
  shows "copytree E (T @ [lit ''extension'']) \<lparr>files = fs @ [(T, Dir)], trace = tr\<rparr> =
     (Inr (), \<lparr>files = staged T E fs, trace = tr @ [CopyTree E (T @ [lit ''extension''])]\<rparr>)"
proof -
  let ?W = "T @ [lit ''extension'']"
  have "E \<noteq> T" using assms(2) by auto
  then have 1: "node_at (fs @ [(T, Dir)]) E = Some Dir"
    using assms(3,4) by (simp add: node_at_def map_add_def)
  have "map_of fs ?W = None" using assms(1) by (rule fresh_None) simp
  then have 2: "node_at (fs @ [(T, Dir)]) ?W = None"
    by (simp add: node_at_def map_add_def)
  have 3: "copies ?W E (fs @ [(T, Dir)]) = copies ?W E fs"
    using assms(2) by (simp add: copies_simps)
  have "copytree E ?W \<lparr>files = fs @ [(T, Dir)], trace = tr\<rparr> =
     (Inr (), \<lparr>files = (fs @ [(T, Dir)]) @ copies ?W E (fs @ [(T, Dir)]),
               trace = tr @ [CopyTree E ?W]\<rparr>)"
    using 1 2 unfolding copies_def by (simp add: copytree_def Let_def emit_def)
  then show ?thesis unfolding 3 by (simp add: staged_def)
qed

lemma staged_cleanup:
  assumes "fresh T fs" "\<not> prefix E T"
  shows "filter (\<lambda>(p, n). \<not> prefix T p) (staged T E fs) = fs"
  using assms by (simp add: staged_def fresh_filter copies_filter)

lemma read_file_ok:
  assumes "node_at (files w) p = Some (File c)"
  shows "read_file p w = (Inr c, emit (OpenRead p) w)"
  using assms by (simp add: read_file_def Let_def)

lemma load_manifest_ok:
  assumes "node_at (files w) p = Some (File c)" "json_load env c = Inr m"
  shows "load_manifest env p w = (Inr m, emit (OpenRead p) w)"
  using assms
  by (simp add: load_manifest_def io_bind_def read_file_ok io_of_def io_return_def)

lemma staged_manifest:
  assumes "fresh T fs" "\<not> prefix E T" "node_at fs (E @ [x]) = Some n"
  shows "node_at (staged T E fs) (T @ [lit ''extension'', x]) = Some n"
  using assms staged_lookup [OF assms(1,2), of "T @ [lit ''extension'', x]"]
  by (simp add: node_at_def)

subsection \<open>The run up to the edited manifest\<close>

lemma overrides_dict:
  "\<exists>kvs1. override_version v (PyDict kvs) = Inr (PyDict kvs1)
     \<and> override_hosts ps (PyDict kvs1) = Inr (PyDict (edited v ps kvs))"
  by (auto simp: override_version_def override_hosts_def edited_def split: option.splits)

lemma keys_differ: "lit ''version'' \<noteq> lit ''host_permissions''"
  by (simp add: lit_def)

lemma edited_version:
  "map_of (edited v ps kvs) (lit ''version'') =
     (case v of None \<Rightarrow> map_of kvs (lit ''version'')
      | Some s \<Rightarrow> if s = [] then map_of kvs (lit ''version'') else Some (PyStr s))"
  using keys_differ
  by (auto simp: edited_def update_conv' split: option.splits)

lemma edited_hosts:
  "map_of (edited v ps kvs) (lit ''host_permissions'') =
     (if ps = [] then map_of kvs (lit ''host_permissions'') else Some (PyList (map PyStr ps)))"
  using keys_differ
  by (auto simp: edited_def update_conv' split: option.splits)

lemma run_to_edit:
  assumes ext: "node_at (files w) (EXTENSION_DIR env) = Some Dir"
    and fresh: "fresh (tmpdir env) (files w)"
    and out: "\<not> prefix (EXTENSION_DIR env) (tmpdir env)"
    and mf: "node_at (files w) (EXTENSION_DIR env @ [lit ''manifest.json'']) = Some (File c)"
    and js: "json_load env c = Inr (PyDict kvs)"
  shows "main env args w =
    (let T = tmpdir env; E = EXTENSION_DIR env; W = T @ [lit ''extension''];
         M = W @ [lit ''manifest.json''];
         ps = normalize_host_patterns (hosts args) (allow_http args);
         m2 = PyDict (edited (version args) ps kvs);
         w5 = \<lparr>files = staged T E (files w),
               trace = trace w @ [Stat E]
                 @ (if dry_run args
                    then [Print (lit ''Running in dry-run mode; no files will be written.'')]
                    else [])
                 @ [MkTemp T, CopyTree E W, OpenRead M]\<rparr>
     in case (if dry_run args then
          io_bind (print (lit ''Manifest preview:'')) (\<lambda>_.
          io_bind (io_of (get m2 (lit ''version'') PyNone)) (\<lambda>v.
          io_bind (io_of (get m2 (lit ''host_permissions'') (PyList []))) (\<lambda>hp.
          io_bind (print (json_dumps env
                     (PyDict [(lit ''version'', v), (lit ''host_permissions'', hp)]))) (\<lambda>_.
          io_return 0))))
        else
          io_bind (write_manifest env M m2) (\<lambda>_.
          io_bind (create_archive W (output_file args)) (\<lambda>_.
          io_bind (print (lit ''Created package: '' @ path_str (output_file args))) (\<lambda>_.
          io_return 0)))) w5 of (r, w') \<Rightarrow> (r, rmtree T w'))"
proof -
  define T where "T = tmpdir env"
  define E where "E = EXTENSION_DIR env"
  define W where "W = T @ [lit ''extension'']"
  define M where "M = W @ [lit ''manifest.json'']"
  define ps where "ps = normalize_host_patterns (hosts args) (allow_http args)"
  define w1 where "w1 = emit (Stat E) w"
  define w2 where "w2 = (if dry_run args
      then emit (Print (lit ''Running in dry-run mode; no files will be written.'')) w1 else w1)"
  define w3 where "w3 = \<lparr>files = files w @ [(T, Dir)], trace = trace w2 @ [MkTemp T]\<rparr>"
  define w4 where "w4 = \<lparr>files = staged T E (files w), trace = trace w3 @ [CopyTree E W]\<rparr>"
  define w5 where "w5 = emit (OpenRead M) w4"
  have E_ne: "E \<noteq> []" by (simp add: E_def EXTENSION_DIR_def)
  have s1: "validate_environment env w = (Inr (), w1)"
    using validate_ok [OF ext] by (simp add: w1_def E_def)
  have s2: "(if dry_run args
              then print (lit ''Running in dry-run mode; no files will be written.'')
              else io_return ()) w1 = (Inr (), w2)"
    by (simp add: w2_def print_def io_return_def)
  have f2: "files w2 = files w" by (simp add: w2_def w1_def)
  have "mkdtemp T w2 = (Inr (), emit (MkTemp T) (w2\<lparr>files := files w2 @ [(T, Dir)]\<rparr>))"
    using fresh by (intro mkdtemp_ok) (simp add: f2 T_def)
  then have s3: "mkdtemp T w2 = (Inr (), w3)"
    by (simp add: w3_def emit_def f2)
  have s4: "copytree E W w3 = (Inr (), w4)"
    unfolding w3_def w4_def W_def
    using copytree_ok [of T "files w" E "trace w2 @ [MkTemp T]"] fresh out ext E_ne
    by (simp add: T_def E_def)
  have "node_at (files w4) M = Some (File c)"
    using staged_manifest [of T "files w" E "lit ''manifest.json''" "File c"] fresh out mf
    by (simp add: w4_def M_def W_def T_def E_def)
  then have s5: "load_manifest env M w4 = (Inr (PyDict kvs), w5)"
    using js by (simp add: load_manifest_ok w5_def)
  obtain kvs1 where s6: "override_version (version args) (PyDict kvs) = Inr (PyDict kvs1)"
    and s7: "override_hosts ps (PyDict kvs1) = Inr (PyDict (edited (version args) ps kvs))"
    using overrides_dict by blast
  have w5_eq: "w5 = \<lparr>files = staged T E (files w),
               trace = trace w @ [Stat E]
                 @ (if dry_run args
                    then [Print (lit ''Running in dry-run mode; no files will be written.'')]
                    else [])
                 @ [MkTemp T, CopyTree E W, OpenRead M]\<rparr>"
    by (simp add: w5_def w4_def w3_def w2_def w1_def emit_def)
  have "main env args w =
    (case (if dry_run args then
          io_bind (print (lit ''Manifest preview:'')) (\<lambda>_.
          io_bind (io_of (get (PyDict (edited (version args) ps kvs)) (lit ''version'') PyNone)) (\<lambda>v.
          io_bind (io_of (get (PyDict (edited (version args) ps kvs)) (lit ''host_permissions'') (PyList []))) (\<lambda>hp.
          io_bind (print (json_dumps env
                     (PyDict [(lit ''version'', v), (lit ''host_permissions'', hp)]))) (\<lambda>_.
          io_return 0))))
        else
          io_bind (write_manifest env M (PyDict (edited (version args) ps kvs))) (\<lambda>_.
          io_bind (create_archive W (output_file args)) (\<lambda>_.
          io_bind (print (lit ''Created package: '' @ path_str (output_file args))) (\<lambda>_.
          io_return 0)))) w5 of (r, w') \<Rightarrow> (r, rmtree T w'))"
    unfolding main_def with_TemporaryDirectory_def packaging_def Let_def
      T_def [symmetric] E_def [symmetric] W_def [symmetric] M_def [symmetric] ps_def [symmetric]
    apply (subst io_bind_def, simp only: s1 prod.case sum.case)
    apply (subst io_bind_def, simp only: s2 prod.case sum.case)
    apply (subst io_bind_def, simp only: s3 prod.case sum.case)
    apply (subst io_bind_def, simp only: s4 prod.case sum.case)
    apply (subst io_bind_def, simp only: s5 prod.case sum.case)
    apply (subst io_bind_def, simp only: s6 io_of_def io_return_def prod.case sum.case)
    apply (subst io_bind_def, simp only: s7 io_of_def io_return_def prod.case sum.case)
    done
  then show ?thesis
    unfolding Let_def T_def [symmetric] E_def [symmetric] W_def [symmetric] M_def [symmetric]
      ps_def [symmetric] w5_eq [symmetric] .
qed

subsection \<open>The preview\<close>

text \<open>
  Claim C9. In dry-run mode, when the extension directory exists, the name of the
  temporary directory is unused and not inside the extension tree, and the manifest of
  the tree is a file that \<open>json.load\<close> reads as a dict, the run returns 0 with exit
  status 0 and leaves the file system as it was. Its calls are, in order: the test for
  the directory, the dry-run notice, making the temporary directory, copying the tree
  into it, reading the copied manifest, printing the heading and the preview of the
  effective version and host permissions, and removing the temporary directory. No
  file is opened for writing and no directory is made for the destination.
\<close>

theorem dry_run_preview:
  assumes dry: "dry_run args"
    and ext: "node_at (files w) (EXTENSION_DIR env) = Some Dir"
    and fresh: "fresh (tmpdir env) (files w)"
    and out: "\<not> prefix (EXTENSION_DIR env) (tmpdir env)"
    and mf: "node_at (files w) (EXTENSION_DIR env @ [lit ''manifest.json'']) = Some (File c)"
    and js: "json_load env c = Inr (PyDict kvs)"
  shows "main env args w =
      (Inr 0,
       w\<lparr>trace := trace w @
          [Stat (EXTENSION_DIR env),
           Print (lit ''Running in dry-run mode; no files will be written.''),
           MkTemp (tmpdir env),
           CopyTree (EXTENSION_DIR env) (tmpdir env @ [lit ''extension'']),
           OpenRead (tmpdir env @ [lit ''extension'', lit ''manifest.json'']),
           Print (lit ''Manifest preview:''),
           Print (json_dumps env (PyDict
             [(lit ''version'',
               case version args of
                 None \<Rightarrow> (case map_of kvs (lit ''version'') of None \<Rightarrow> PyNone | Some x \<Rightarrow> x)
               | Some s \<Rightarrow>
                   if s = [] then (case map_of kvs (lit ''version'') of None \<Rightarrow> PyNone | Some x \<Rightarrow> x)
                   else PyStr s),
              (lit ''host_permissions'',
               if normalize_host_patterns (hosts args) (allow_http args) = []
               then (case map_of kvs (lit ''host_permissions'') of None \<Rightarrow> PyList [] | Some x \<Rightarrow> x)
               else PyList (map PyStr (normalize_host_patterns (hosts args) (allow_http args))))])),
           RmTree (tmpdir env)]\<rparr>)
    \<and> exit_status (fst (main env args w)) = 0
    \<and> files (snd (main env args w)) = files w"
proof -
  have clean: "filter (\<lambda>(p, n). \<not> prefix (tmpdir env) p)
      (staged (tmpdir env) (EXTENSION_DIR env) (files w)) = files w"
    using fresh out by (rule staged_cleanup)
  have "main env args w =
      (Inr 0,
       w\<lparr>trace := trace w @
          [Stat (EXTENSION_DIR env),
           Print (lit ''Running in dry-run mode; no files will be written.''),
           MkTemp (tmpdir env),
           CopyTree (EXTENSION_DIR env) (tmpdir env @ [lit ''extension'']),
           OpenRead (tmpdir env @ [lit ''extension'', lit ''manifest.json'']),
           Print (lit ''Manifest preview:''),
           Print (json_dumps env (PyDict
             [(lit ''version'',
               case version args of
                 None \<Rightarrow> (case map_of kvs (lit ''version'') of None \<Rightarrow> PyNone | Some x \<Rightarrow> x)
               | Some s \<Rightarrow>
                   if s = [] then (case map_of kvs (lit ''version'') of None \<Rightarrow> PyNone | Some x \<Rightarrow> x)
                   else PyStr s),
              (lit ''host_permissions'',
               if normalize_host_patterns (hosts args) (allow_http args) = []
               then (case map_of kvs (lit ''host_permissions'') of None \<Rightarrow> PyList [] | Some x \<Rightarrow> x)
               else PyList (map PyStr (normalize_host_patterns (hosts args) (allow_http args))))])),
           RmTree (tmpdir env)]\<rparr>)"
    unfolding run_to_edit [OF ext fresh out mf js, of args] Let_def
    using dry
    by (simp add: io_bind_def print_def io_of_def io_return_def rmtree_def emit_def clean
        edited_version edited_hosts split: option.splits)
  then show ?thesis by (simp add: exit_status_def)
qed

theorem dry_run_preview_witness:
  "exit_status (fst (main demo_env
       (demo_args\<lparr>dry_run := True, version := Some (lit ''2.0''), hosts := [lit ''foo.com'']\<rparr>)
       demo_world)) = 0
   \<and> files (snd (main demo_env
       (demo_args\<lparr>dry_run := True, version := Some (lit ''2.0''), hosts := [lit ''foo.com'']\<rparr>)
       demo_world)) = files demo_world
   \<and> trace (snd (main demo_env
       (demo_args\<lparr>dry_run := True, version := Some (lit ''2.0''), hosts := [lit ''foo.com'']\<rparr>)
       demo_world)) =
        [Stat [lit ''repo'', lit ''extension''],
         Print (lit ''Running in dry-run mode; no files will be written.''),
         MkTemp [lit ''tmp'', lit ''tmpa1b2c3''],
         CopyTree [lit ''repo'', lit ''extension''] [lit ''tmp'', lit ''tmpa1b2c3'', lit ''extension''],
         OpenRead [lit ''tmp'', lit ''tmpa1b2c3'', lit ''extension'', lit ''manifest.json''],
         Print (lit ''Manifest preview:''),
         Print (lit ''version=2.0;host_permissions=https://foo.com/*;''),
         RmTree [lit ''tmp'', lit ''tmpa1b2c3'']]"
proof -
  let ?args = "demo_args\<lparr>dry_run := True, version := Some (lit ''2.0''), hosts := [lit ''foo.com'']\<rparr>"
  have 1: "dry_run ?args" by simp
  have 2: "node_at (files demo_world) (EXTENSION_DIR demo_env) = Some Dir" by code_simp
  have 3: "fresh (tmpdir demo_env) (files demo_world)" by code_simp
  have 4: "\<not> prefix (EXTENSION_DIR demo_env) (tmpdir demo_env)" by code_simp
  have 5: "node_at (files demo_world) (EXTENSION_DIR demo_env @ [lit ''manifest.json''])
      = Some (File (Bytes (lit ''{old}'')))" by code_simp
  have 6: "json_load demo_env (Bytes (lit ''{old}'')) =
      Inr (PyDict [(lit ''name'', PyStr (lit ''agent'')),
                   (lit ''version'', PyStr (lit ''1.0'')),
                   (lit ''host_permissions'', PyList [PyStr (lit ''https://old/*'')])])"
    by (simp add: demo_env_def)
  have 7: "trace (snd (main demo_env ?args demo_world)) =
        [Stat [lit ''repo'', lit ''extension''],
         Print (lit ''Running in dry-run mode; no files will be written.''),
         MkTemp [lit ''tmp'', lit ''tmpa1b2c3''],
         CopyTree [lit ''repo'', lit ''extension''] [lit ''tmp'', lit ''tmpa1b2c3'', lit ''extension''],
         OpenRead [lit ''tmp'', lit ''tmpa1b2c3'', lit ''extension'', lit ''manifest.json''],
         Print (lit ''Manifest preview:''),
         Print (lit ''version=2.0;host_permissions=https://foo.com/*;''),
         RmTree [lit ''tmp'', lit ''tmpa1b2c3'']]"
    by code_simp
  from dry_run_preview [OF 1 2 3 4 5 6, THEN conjunct2] 7 show ?thesis by blast
qed

subsection \<open>Building the archive\<close>

lemma node_at_append:
  "node_at (fs @ gs) q = (case node_at fs q of Some n \<Rightarrow> Some n | None \<Rightarrow> node_at gs q)"
  by (simp add: node_at_def map_add_def split: option.splits)

lemma node_at_update:
  "q \<noteq> [] \<Longrightarrow> node_at (AList.update p n fs) q = (if q = p then Some n else node_at fs q)"
  by (simp add: node_at_def update_conv')

lemma node_at_not_key:
  "q \<noteq> [] \<Longrightarrow> q \<notin> fst ` set gs \<Longrightarrow> node_at gs q = None"
  by (simp add: node_at_def map_of_eq_None_iff)

lemma node_at_key: "p \<in> fst ` set fs \<Longrightarrow> node_at fs p \<noteq> None"
  using map_of_eq_None_iff [of fs p] by (auto simp: node_at_def)

lemma mkdir_chain_ok:
  assumes "\<forall>q \<in> set qs. \<forall>c. node_at fs q \<noteq> Some (File c)"
  shows "\<exists>ds. mkdir_chain qs fs = Inr (fs @ ds) \<and> fst ` set ds \<subseteq> set qs
     \<and> (\<forall>q \<in> set qs. node_at (fs @ ds) q = Some Dir)"
  using assms
proof (induction qs arbitrary: fs)
  case Nil
  show ?case by simp
next
  case (Cons q qs)
  have nofile: "\<forall>c. node_at fs q \<noteq> Some (File c)" using Cons.prems by simp
  show ?case
  proof (cases "node_at fs q")
    case None
    then have qne: "q \<noteq> []" by (auto simp: node_at_def)
    have "\<forall>q' \<in> set qs. \<forall>c. node_at (fs @ [(q, Dir)]) q' \<noteq> Some (File c)"
      using Cons.prems by (auto simp: node_at_append node_at_def split: option.splits if_splits)
    from Cons.IH [OF this] obtain ds where
      ds: "mkdir_chain qs (fs @ [(q, Dir)]) = Inr ((fs @ [(q, Dir)]) @ ds)"
        "fst ` set ds \<subseteq> set qs"
        "\<forall>q' \<in> set qs. node_at ((fs @ [(q, Dir)]) @ ds) q' = Some Dir"
      by blast
    have "node_at (fs @ (q, Dir) # ds) q = Some Dir"
      using None qne by (simp add: node_at_def map_add_def split: option.splits)
    with ds None show ?thesis
      by (intro exI [of _ "(q, Dir) # ds"]) auto
  next
    case (Some n)
    with nofile have n: "n = Dir" by (cases n) auto
    from Cons.IH [of fs] Cons.prems obtain ds where
      ds: "mkdir_chain qs fs = Inr (fs @ ds)" "fst ` set ds \<subseteq> set qs"
        "\<forall>q' \<in> set qs. node_at (fs @ ds) q' = Some Dir"
      by auto
    have "node_at (fs @ ds) q = Some Dir"
      using Some n by (simp add: node_at_append)
    with ds Some n show ?thesis
      by (intro exI [of _ ds]) auto
  qed
qed

lemma zip_entries_ok:
  assumes "\<forall>p \<in> set ps. node_at fs p \<noteq> None"
  shows "\<exists>es. zip_entries fs src ps = Inr es
     \<and> set es = {(as_posix (relative_to p src), c) | p c. p \<in> set ps \<and> node_at fs p = Some (File c)}"
  using assms
proof (induction ps)
  case Nil
  show ?case by simp
next
  case (Cons p ps)
  then obtain es where es: "zip_entries fs src ps = Inr es"
    "set es = {(as_posix (relative_to p src), c) | p c. p \<in> set ps \<and> node_at fs p = Some (File c)}"
    by auto
  from Cons.prems obtain n where n: "node_at fs p = Some n" by auto
  show ?case
  proof (cases n)
    case Dir
    with n es show ?thesis by auto
  next
    case (File c)
    with n es show ?thesis by auto
  qed
qed

lemma as_posix_single:
  assumes "as_posix r = s" "47 \<notin> set s" "r \<noteq> []"
  shows "r = [s]"
proof (cases r rule: as_posix.cases)
  case 1
  with assms(3) show ?thesis by simp
next
  case (2 c)
  with assms(1) show ?thesis by simp
next
  case (3 c v va)
  with assms(1) have "47 \<in> set s" by (auto simp: lit_def)
  with assms(2) show ?thesis by simp
qed

lemma write_file_ok:
  assumes "node_at (files w) p \<noteq> Some Dir" "node_at (files w) (parent p) = Some Dir"
  shows "write_file p c w = (Inr (), (emit (OpenWrite p) w)\<lparr>files := AList.update p (File c) (files w)\<rparr>)"
  using assms by (simp add: write_file_def Let_def)

lemma rglob_eq:
  "rglob d w = (Inr (remdups (map fst (filter (\<lambda>(p, n). strict_prefix d p) (files w)))),
      emit (ListDir d) w)"
  by (simp add: rglob_def)

lemma create_archive_ok:
  assumes notdir: "node_at (files w) out \<noteq> Some Dir"
    and chain: "\<forall>q \<in> set (prefixes (parent out)). \<forall>c. node_at (files w) q \<noteq> Some (File c)"
    and src: "strict_prefix src mp" "node_at (files w) mp = Some (File mc)"
    and sep: "\<not> prefix src out"
  shows "\<exists>es ds. create_archive src out w =
      (Inr (), \<lparr>files = AList.update out (File (Zip es))
                   (AList.update out (File (Zip [])) (files w @ ds)),
               trace = trace w @ [Mkdir (parent out), OpenWrite out, ListDir src]\<rparr>)
     \<and> fst ` set ds \<subseteq> set (prefixes (parent out))
     \<and> (as_posix (relative_to mp src), mc) \<in> set es
     \<and> set es = {(as_posix (relative_to p src), c) | p c. strict_prefix src p
           \<and> node_at (AList.update out (File (Zip [])) (files w @ ds)) p = Some (File c)}"
proof -
  have out_ne: "out \<noteq> []" using notdir by auto
  from mkdir_chain_ok [OF chain] obtain ds where
    ds: "mkdir_chain (prefixes (parent out)) (files w) = Inr (files w @ ds)"
      "fst ` set ds \<subseteq> set (prefixes (parent out))"
      "\<forall>q \<in> set (prefixes (parent out)). node_at (files w @ ds) q = Some Dir"
    by blast
  define w1 where "w1 = \<lparr>files = files w @ ds, trace = trace w @ [Mkdir (parent out)]\<rparr>"
  have s1: "mkdir_parents (parent out) w = (Inr (), w1)"
    by (simp add: mkdir_parents_def Let_def ds(1) w1_def emit_def)
  have "\<not> prefix out (butlast out)"
  proof
    assume "prefix out (butlast out)"
    then have "length out \<le> length (butlast out)" by (rule prefix_length_le)
    then have "length out \<le> length out - 1" by (simp only: length_butlast)
    moreover have "0 < length out" using out_ne by simp
    ultimately show False by arith
  qed
  then have "out \<notin> set (prefixes (parent out))"
    by (simp add: parent_def in_set_prefixes)
  then have "out \<notin> fst ` set ds" using ds(2) by blast
  then have "node_at ds out = None" using out_ne by (simp add: node_at_not_key)
  then have a: "node_at (files w1) out \<noteq> Some Dir"
    using notdir by (auto simp: w1_def node_at_append split: option.splits)
  have b: "node_at (files w1) (parent out) = Some Dir"
    using ds(3) by (simp add: w1_def)
  define w2 where "w2 = \<lparr>files = AList.update out (File (Zip [])) (files w @ ds),
      trace = trace w @ [Mkdir (parent out), OpenWrite out]\<rparr>"
  have s2: "write_file out (Zip []) w1 = (Inr (), w2)"
    using write_file_ok [OF a b, of "Zip []"] by (simp add: w1_def w2_def emit_def)
  define paths where
    "paths = remdups (map fst (filter (\<lambda>(p, n). strict_prefix src p) (files w2)))"
  define w3 where "w3 = emit (ListDir src) w2"
  have s3: "rglob src w2 = (Inr paths, w3)"
    by (simp add: rglob_eq paths_def w3_def)
  have mp_ne: "mp \<noteq> []" using src(1) by auto
  have mp_out: "mp \<noteq> out" using src(1) sep by auto
  have mp2: "node_at (files w2) mp = Some (File mc)"
    using src(2) mp_ne mp_out by (simp add: w2_def node_at_update node_at_append)
  then have "map_of (files w2) mp = Some (File mc)" using mp_ne by (simp add: node_at_def)
  then have "mp \<in> fst ` set (files w2)" by (metis map_of_eq_None_iff option.distinct(1))
  then have mp_in: "mp \<in> set (sort paths)" using src(1) by (force simp: paths_def)
  have "\<forall>p \<in> set (sort paths). node_at (files w2) p \<noteq> None"
  proof
    fix p assume "p \<in> set (sort paths)"
    then have "p \<in> fst ` set (files w2)" by (auto simp: paths_def)
    then show "node_at (files w2) p \<noteq> None" by (rule node_at_key)
  qed
  from zip_entries_ok [OF this, of src] obtain es where
    es: "zip_entries (files w2) src (sort paths) = Inr es"
      "set es = {(as_posix (relative_to p src), c) | p c.
          p \<in> set (sort paths) \<and> node_at (files w2) p = Some (File c)}"
    by blast
  have f3: "files w3 = files w2" by (simp add: w3_def)
  have "create_archive src out w =
      (Inr (), w3\<lparr>files := AList.update out (File (Zip es)) (files w3)\<rparr>)"
    unfolding create_archive_def
    apply (subst io_bind_def, simp only: s1 prod.case sum.case)
    apply (subst io_bind_def, simp only: s2 prod.case sum.case)
    apply (subst io_bind_def, simp only: s3 prod.case sum.case)
    apply (simp only: f3 es(1) sum.case)
    done
  moreover have "(as_posix (relative_to mp src), mc) \<in> set es"
    using mp_in mp2 unfolding es(2) by blast
  moreover have "p \<in> set (sort paths) \<and> node_at (files w2) p = Some (File c)
      \<longleftrightarrow> strict_prefix src p \<and> node_at (files w2) p = Some (File c)" for p c
  proof -
    have "p \<in> set (sort paths)" if "strict_prefix src p" "node_at (files w2) p = Some (File c)"
    proof -
      have "p \<noteq> []" using that(1) by auto
      then have "map_of (files w2) p = Some (File c)" using that(2) by (simp add: node_at_def)
      then have "p \<in> fst ` set (files w2)" by (metis map_of_eq_None_iff option.distinct(1))
      then show ?thesis using that(1) by (force simp: paths_def)
    qed
    moreover have "strict_prefix src p" if "p \<in> set (sort paths)"
      using that by (auto simp: paths_def)
    ultimately show ?thesis by blast
  qed
  then have "set es = {(as_posix (relative_to p src), c) | p c. strict_prefix src p
           \<and> node_at (files w2) p = Some (File c)}"
    unfolding es(2) by simp
  ultimately show ?thesis
    using ds(2) by (intro exI [of _ es] exI [of _ ds]) (simp add: w3_def w2_def emit_def)
qed

lemma staged_outside:
  assumes "fresh T fs" "\<not> prefix E T" "\<not> prefix T q"
  shows "node_at (staged T E fs) q = node_at fs q"
proof -
  have "\<not> prefix (T @ [lit ''extension'']) q" using assms(3) by (auto simp: prefix_def)
  moreover have "q \<noteq> T" using assms(3) by auto
  ultimately show ?thesis
    using staged_lookup [OF assms(1,2), of q] by (simp add: node_at_def)
qed

lemma staged_working_dir:
  assumes "fresh T fs" "\<not> prefix E T" "node_at fs E = Some Dir" "E \<noteq> []"
  shows "node_at (staged T E fs) (T @ [lit ''extension'']) = Some Dir"
  using staged_lookup [OF assms(1,2), of "T @ [lit ''extension'']"] assms(3,4)
  by (simp add: node_at_def)

lemma node_at_rmtree:
  "\<not> prefix T q \<Longrightarrow> node_at (files (rmtree T w)) q = node_at (files w) q"
  by (simp add: rmtree_def node_at_def map_of_filter_key)

lemma build_archive:
  assumes nodry: "\<not> dry_run args"
    and ext: "node_at (files w) (EXTENSION_DIR env) = Some Dir"
    and fresh: "fresh (tmpdir env) (files w)"
    and out: "\<not> prefix (EXTENSION_DIR env) (tmpdir env)"
    and mf: "node_at (files w) (EXTENSION_DIR env @ [lit ''manifest.json'']) = Some (File c)"
    and js: "json_load env c = Inr (PyDict kvs)"
    and outside: "\<not> prefix (tmpdir env) (output_file args)"
    and notdir: "node_at (files w) (output_file args) \<noteq> Some Dir"
    and chain: "\<forall>q \<in> set (prefixes (parent (output_file args))).
                  node_at (files w) q = None \<or> node_at (files w) q = Some Dir"
  shows "\<exists>es. fst (main env args w) = Inr 0
     \<and> node_at (files (snd (main env args w))) (output_file args) = Some (File (Zip es))
     \<and> (\<forall>c'. (lit ''manifest.json'', c') \<in> set es \<longleftrightarrow>
           c' = Bytes (json_dumps env (PyDict (edited (version args)
            (normalize_host_patterns (hosts args) (allow_http args)) kvs)) @ [10]))"
proof -
  define T where "T = tmpdir env"
  define E where "E = EXTENSION_DIR env"
  define W where "W = T @ [lit ''extension'']"
  define M where "M = W @ [lit ''manifest.json'']"
  define Out where "Out = output_file args"
  define ps where "ps = normalize_host_patterns (hosts args) (allow_http args)"
  define m2 where "m2 = PyDict (edited (version args) ps kvs)"
  define mc where "mc = Bytes (json_dumps env m2 @ [10])"
  define w5 where "w5 = \<lparr>files = staged T E (files w),
               trace = trace w @ [Stat E]
                 @ (if dry_run args
                    then [Print (lit ''Running in dry-run mode; no files will be written.'')]
                    else [])
                 @ [MkTemp T, CopyTree E W, OpenRead M]\<rparr>"
  have fr: "fresh T (files w)" and nET: "\<not> prefix E T" and nTOut: "\<not> prefix T Out"
    using fresh out outside by (simp_all add: T_def E_def Out_def)
  have E_ne: "E \<noteq> []" by (simp add: E_def EXTENSION_DIR_def)
  have Out_ne: "Out \<noteq> []" using notdir by (auto simp: Out_def)
  have M_eq: "M = T @ [lit ''extension'', lit ''manifest.json'']" by (simp add: M_def W_def)
  have TM: "prefix T M" by (simp add: M_eq)
  have M_ne: "M \<noteq> []" by (simp add: M_def)
  have MOut: "M \<noteq> Out" using TM nTOut by auto
  have parentM: "parent M = W" by (simp add: M_def parent_def)
  \<comment> \<open>writing the manifest\<close>
  have a1: "node_at (files w5) M = Some (File c)"
    using staged_manifest [OF fr nET, of "lit ''manifest.json''" "File c"] mf
    by (simp add: w5_def M_eq E_def)
  have a2: "node_at (files w5) (parent M) = Some Dir"
    using staged_working_dir [OF fr nET _ E_ne] ext
    by (simp add: w5_def parentM W_def E_def)
  define w6 where "w6 = (emit (OpenWrite M) w5)\<lparr>files := AList.update M (File mc) (files w5)\<rparr>"
  have s6: "write_manifest env M m2 w5 = (Inr (), w6)"
    using write_file_ok [of w5 M] a1 a2 by (simp add: write_manifest_def w6_def mc_def)
  have f6: "files w6 = AList.update M (File mc) (staged T E (files w))"
    by (simp add: w6_def w5_def)
  have look6: "node_at (files w6) q = node_at (files w) q" if "\<not> prefix T q" for q
  proof (cases "q = []")
    case True
    then show ?thesis by simp
  next
    case False
    moreover have "q \<noteq> M" using that TM by auto
    ultimately show ?thesis
      using staged_outside [OF fr nET that] by (simp add: f6 node_at_update)
  qed
  \<comment> \<open>building the archive\<close>
  have b1: "node_at (files w6) Out \<noteq> Some Dir"
    using look6 [OF nTOut] notdir by (simp add: Out_def)
  have b2: "\<forall>q \<in> set (prefixes (parent Out)). \<forall>c. node_at (files w6) q \<noteq> Some (File c)"
  proof
    fix q assume "q \<in> set (prefixes (parent Out))"
    then have q: "prefix q (parent Out)" by (simp add: in_set_prefixes)
    have "prefix (parent Out) Out" by (simp add: parent_def prefixeq_butlast)
    with q have "prefix q Out" by (rule prefix_order.trans)
    then have "\<not> prefix T q" using nTOut prefix_order.trans by blast
    then have "node_at (files w6) q = node_at (files w) q" by (rule look6)
    moreover have "node_at (files w) q = None \<or> node_at (files w) q = Some Dir"
      using chain \<open>q \<in> set (prefixes (parent Out))\<close> unfolding Out_def by blast
    ultimately show "\<forall>c. node_at (files w6) q \<noteq> Some (File c)"
      by auto
  qed
  have b3: "strict_prefix W M" by (simp add: M_def strict_prefix_def)
  have b4: "node_at (files w6) M = Some (File mc)"
    using M_ne by (simp add: f6 node_at_update)
  have b5: "\<not> prefix W Out" using nTOut by (auto simp: W_def prefix_def)
  from create_archive_ok [OF b1 b2 b3 b4 b5] obtain es ds where
    s7: "create_archive W Out w6 =
      (Inr (), \<lparr>files = AList.update Out (File (Zip es))
                   (AList.update Out (File (Zip [])) (files w6 @ ds)),
               trace = trace w6 @ [Mkdir (parent Out), OpenWrite Out, ListDir W]\<rparr>)"
    and es: "(as_posix (relative_to M W), mc) \<in> set es"
    and es_set: "set es = {(as_posix (relative_to p W), c) | p c. strict_prefix W p
           \<and> node_at (AList.update Out (File (Zip [])) (files w6 @ ds)) p = Some (File c)}"
    by blast
  define w7 where "w7 = \<lparr>files = AList.update Out (File (Zip es))
                   (AList.update Out (File (Zip [])) (files w6 @ ds)),
               trace = trace w6 @ [Mkdir (parent Out), OpenWrite Out, ListDir W]\<rparr>"
  define w8 where "w8 = emit (Print (lit ''Created package: '' @ path_str Out)) w7"
  have run: "main env args w = (Inr 0, rmtree T w8)"
    unfolding run_to_edit [OF ext fresh out mf js, of args] Let_def
      T_def [symmetric] E_def [symmetric] W_def [symmetric] M_def [symmetric]
      ps_def [symmetric] m2_def [symmetric] Out_def [symmetric] w5_def [symmetric]
    using nodry
    apply (simp only: if_False)
    apply (subst io_bind_def, simp only: s6 prod.case sum.case)
    apply (subst io_bind_def, simp only: s7 w7_def [symmetric] prod.case sum.case)
    apply (simp add: io_bind_def print_def io_return_def w8_def)
    done
  have "node_at (files (rmtree T w8)) Out = node_at (files w8) Out"
    using nTOut by (rule node_at_rmtree)
  also have "\<dots> = Some (File (Zip es))"
    using Out_ne by (simp add: w8_def w7_def node_at_update)
  finally have arch: "node_at (files (snd (main env args w))) Out = Some (File (Zip es))"
    by (simp add: run)
  have "relative_to M W = [lit ''manifest.json'']" by (simp add: relative_to_def M_def)
  then have in_es: "(lit ''manifest.json'', mc) \<in> set es" using es by simp
  have only: "c' = mc" if "(lit ''manifest.json'', c') \<in> set es" for c'
  proof -
    from that obtain p where p: "strict_prefix W p"
      "as_posix (relative_to p W) = lit ''manifest.json''"
      "node_at (AList.update Out (File (Zip [])) (files w6 @ ds)) p = Some (File c')"
      unfolding es_set by auto
    from p(1) obtain r where r: "p = W @ r" "r \<noteq> []"
      by (auto simp: strict_prefix_def prefix_def)
    then have "as_posix r = lit ''manifest.json''" using p(2) by (simp add: relative_to_def)
    moreover have "47 \<notin> set (lit ''manifest.json'')" by (simp add: lit_def)
    ultimately have "r = [lit ''manifest.json'']" using r(2) by (rule as_posix_single)
    then have "p = M" using r(1) by (simp add: M_def)
    then have "node_at (AList.update Out (File (Zip [])) (files w6 @ ds)) M = Some (File c')"
      using p(3) by simp
    then show ?thesis
      using M_ne MOut b4 by (simp add: node_at_update node_at_append)
  qed
  from in_es only have "\<forall>c'. (lit ''manifest.json'', c') \<in> set es \<longleftrightarrow> c' = mc" by blast
  with arch run show ?thesis
    unfolding mc_def m2_def ps_def Out_def by auto
qed

text \<open>
  Claim C6. Take a run that is not a dry run, on an extension tree whose manifest
  \<open>json.load\<close> reads as a dict, with an unused temporary directory outside the
  extension tree and the destination, and a destination that is not a directory and has
  no regular file among its ancestors. The run returns 0; the destination then is an
  archive whose one entry named \<open>manifest.json\<close> is the serialized edited dict followed
  by a newline; and in that dict \<open>host_permissions\<close> is what was loaded (present with
  the same value, or absent) if the normalized pattern list is empty, and is the
  normalized list otherwise.
\<close>

theorem archive_host_permissions:
  assumes nodry: "\<not> dry_run args"
    and ext: "node_at (files w) (EXTENSION_DIR env) = Some Dir"
    and fresh: "fresh (tmpdir env) (files w)"
    and out: "\<not> prefix (EXTENSION_DIR env) (tmpdir env)"
    and mf: "node_at (files w) (EXTENSION_DIR env @ [lit ''manifest.json'']) = Some (File c)"
    and js: "json_load env c = Inr (PyDict kvs)"
    and outside: "\<not> prefix (tmpdir env) (output_file args)"
    and notdir: "node_at (files w) (output_file args) \<noteq> Some Dir"
    and chain: "\<forall>q \<in> set (prefixes (parent (output_file args))).
                  node_at (files w) q = None \<or> node_at (files w) q = Some Dir"
  shows "\<exists>es kvs1 kvs'.
       override_version (version args) (PyDict kvs) = Inr (PyDict kvs1)
     \<and> override_hosts (normalize_host_patterns (hosts args) (allow_http args)) (PyDict kvs1)
          = Inr (PyDict kvs')
     \<and> fst (main env args w) = Inr 0
     \<and> node_at (files (snd (main env args w))) (output_file args) = Some (File (Zip es))
     \<and> (\<forall>c'. (lit ''manifest.json'', c') \<in> set es \<longleftrightarrow>
            c' = Bytes (json_dumps env (PyDict kvs') @ [10]))
     \<and> map_of kvs' (lit ''host_permissions'') =
          (if normalize_host_patterns (hosts args) (allow_http args) = []
           then map_of kvs (lit ''host_permissions'')
           else Some (PyList (map PyStr (normalize_host_patterns (hosts args) (allow_http args)))))"
proof -
  from build_archive [OF assms] obtain es where
    "fst (main env args w) = Inr 0"
    "node_at (files (snd (main env args w))) (output_file args) = Some (File (Zip es))"
    "\<forall>c'. (lit ''manifest.json'', c') \<in> set es \<longleftrightarrow>
           c' = Bytes (json_dumps env (PyDict (edited (version args)
            (normalize_host_patterns (hosts args) (allow_http args)) kvs)) @ [10])"
    by blast
  then show ?thesis
    using edited_hosts [of "version args"
        "normalize_host_patterns (hosts args) (allow_http args)" kvs]
      overrides_dict [of "version args" kvs
        "normalize_host_patterns (hosts args) (allow_http args)"]
    by blast
qed

theorem archive_host_permissions_witness:
  "\<exists>es kvs'.
       fst (main demo_env demo_args demo_world) = Inr 0
     \<and> node_at (files (snd (main demo_env demo_args demo_world))) (output_file demo_args)
          = Some (File (Zip es))
     \<and> (lit ''manifest.json'', Bytes (json_dumps demo_env (PyDict kvs') @ [10])) \<in> set es
     \<and> map_of kvs' (lit ''host_permissions'') = Some (PyList [PyStr (lit ''https://old/*'')])"
proof -
  have 1: "\<not> dry_run demo_args" by (simp add: demo_args_def)
  have 2: "node_at (files demo_world) (EXTENSION_DIR demo_env) = Some Dir" by code_simp
  have 3: "fresh (tmpdir demo_env) (files demo_world)" by code_simp
  have 4: "\<not> prefix (EXTENSION_DIR demo_env) (tmpdir demo_env)" by code_simp
  have 5: "node_at (files demo_world) (EXTENSION_DIR demo_env @ [lit ''manifest.json''])
      = Some (File (Bytes (lit ''{old}'')))" by code_simp
  have 6: "json_load demo_env (Bytes (lit ''{old}'')) =
      Inr (PyDict [(lit ''name'', PyStr (lit ''agent'')),
                   (lit ''version'', PyStr (lit ''1.0'')),
                   (lit ''host_permissions'', PyList [PyStr (lit ''https://old/*'')])])"
    by (simp add: demo_env_def)
  have 7: "\<not> prefix (tmpdir demo_env) (output_file demo_args)" by code_simp
  have 8: "node_at (files demo_world) (output_file demo_args) \<noteq> Some Dir" by code_simp
  have 9: "\<forall>q \<in> set (prefixes (parent (output_file demo_args))).
      node_at (files demo_world) q = None \<or> node_at (files demo_world) q = Some Dir"
    by code_simp
  have n: "normalize_host_patterns (hosts demo_args) (allow_http demo_args) = []"
    by code_simp
  have l: "map_of [(lit ''name'', PyStr (lit ''agent'')),
                   (lit ''version'', PyStr (lit ''1.0'')),
                   (lit ''host_permissions'', PyList [PyStr (lit ''https://old/*'')])]
      (lit ''host_permissions'') = Some (PyList [PyStr (lit ''https://old/*'')])"
    by code_simp
  from archive_host_permissions [OF 1 2 3 4 5 6 7 8 9] obtain es kvs' where
    "fst (main demo_env demo_args demo_world) = Inr 0"
    "node_at (files (snd (main demo_env demo_args demo_world))) (output_file demo_args)
       = Some (File (Zip es))"
    "\<forall>c'. (lit ''manifest.json'', c') \<in> set es \<longleftrightarrow>
       c' = Bytes (json_dumps demo_env (PyDict kvs') @ [10])"
    "map_of kvs' (lit ''host_permissions'') = Some (PyList [PyStr (lit ''https://old/*'')])"
    unfolding n l by auto
  then show ?thesis by (intro exI [of _ es] exI [of _ kvs']) simp
qed

text \<open>
  Claim C7, as the code has it. For the same runs, \<open>version\<close> in the dict written to
  the archive is exactly the override string if one was given and is not empty, and is
  what was loaded if no override was given or the override is the empty string.
\<close>

theorem archive_version_override:
  assumes nodry: "\<not> dry_run args"
    and ext: "node_at (files w) (EXTENSION_DIR env) = Some Dir"
    and fresh: "fresh (tmpdir env) (files w)"
    and out: "\<not> prefix (EXTENSION_DIR env) (tmpdir env)"
    and mf: "node_at (files w) (EXTENSION_DIR env @ [lit ''manifest.json'']) = Some (File c)"
    and js: "json_load env c = Inr (PyDict kvs)"
    and outside: "\<not> prefix (tmpdir env) (output_file args)"
    and notdir: "node_at (files w) (output_file args) \<noteq> Some Dir"
    and chain: "\<forall>q \<in> set (prefixes (parent (output_file args))).
                  node_at (files w) q = None \<or> node_at (files w) q = Some Dir"
  shows "\<exists>es kvs1 kvs'.
       override_version (version args) (PyDict kvs) = Inr (PyDict kvs1)
     \<and> override_hosts (normalize_host_patterns (hosts args) (allow_http args)) (PyDict kvs1)
          = Inr (PyDict kvs')
     \<and> fst (main env args w) = Inr 0
     \<and> node_at (files (snd (main env args w))) (output_file args) = Some (File (Zip es))
     \<and> (\<forall>c'. (lit ''manifest.json'', c') \<in> set es \<longleftrightarrow>
            c' = Bytes (json_dumps env (PyDict kvs') @ [10]))
     \<and> map_of kvs' (lit ''version'') =
          (case version args of
             None \<Rightarrow> map_of kvs (lit ''version'')
           | Some s \<Rightarrow> if s = [] then map_of kvs (lit ''version'') else Some (PyStr s))"
proof -
  from build_archive [OF assms] obtain es where
    "fst (main env args w) = Inr 0"
    "node_at (files (snd (main env args w))) (output_file args) = Some (File (Zip es))"
    "\<forall>c'. (lit ''manifest.json'', c') \<in> set es \<longleftrightarrow>
           c' = Bytes (json_dumps env (PyDict (edited (version args)
            (normalize_host_patterns (hosts args) (allow_http args)) kvs)) @ [10])"
    by blast
  then show ?thesis
    using edited_version [of "version args"
        "normalize_host_patterns (hosts args) (allow_http args)" kvs]
      overrides_dict [of "version args" kvs
        "normalize_host_patterns (hosts args) (allow_http args)"]
    by blast
qed

theorem archive_version_override_witness:
  "\<exists>es kvs'.
       fst (main demo_env (demo_args\<lparr>version := Some (lit ''2.0'')\<rparr>) demo_world) = Inr 0
     \<and> node_at (files (snd (main demo_env (demo_args\<lparr>version := Some (lit ''2.0'')\<rparr>) demo_world)))
          (output_file demo_args) = Some (File (Zip es))
     \<and> (lit ''manifest.json'', Bytes (json_dumps demo_env (PyDict kvs') @ [10])) \<in> set es
     \<and> map_of kvs' (lit ''version'') = Some (PyStr (lit ''2.0''))"
proof -
  let ?args = "demo_args\<lparr>version := Some (lit ''2.0'')\<rparr>"
  have 1: "\<not> dry_run ?args" by (simp add: demo_args_def)
  have 2: "node_at (files demo_world) (EXTENSION_DIR demo_env) = Some Dir" by code_simp
  have 3: "fresh (tmpdir demo_env) (files demo_world)" by code_simp
  have 4: "\<not> prefix (EXTENSION_DIR demo_env) (tmpdir demo_env)" by code_simp
  have 5: "node_at (files demo_world) (EXTENSION_DIR demo_env @ [lit ''manifest.json''])
      = Some (File (Bytes (lit ''{old}'')))" by code_simp
  have 6: "json_load demo_env (Bytes (lit ''{old}'')) =
      Inr (PyDict [(lit ''name'', PyStr (lit ''agent'')),
                   (lit ''version'', PyStr (lit ''1.0'')),
                   (lit ''host_permissions'', PyList [PyStr (lit ''https://old/*'')])])"
    by (simp add: demo_env_def)
  have o: "output_file ?args = output_file demo_args" by simp
  have 7: "\<not> prefix (tmpdir demo_env) (output_file ?args)" unfolding o by code_simp
  have 8: "node_at (files demo_world) (output_file ?args) \<noteq> Some Dir" unfolding o by code_simp
  have 9: "\<forall>q \<in> set (prefixes (parent (output_file ?args))).
      node_at (files demo_world) q = None \<or> node_at (files demo_world) q = Some Dir"
    unfolding o by code_simp
  have v: "version ?args = Some (lit ''2.0'')" by simp
  have ne: "lit ''2.0'' \<noteq> []" by (simp add: lit_def)
  from archive_version_override [OF 1 2 3 4 5 6 7 8 9] obtain es kvs' where
    "fst (main demo_env ?args demo_world) = Inr 0"
    "node_at (files (snd (main demo_env ?args demo_world))) (output_file demo_args)
       = Some (File (Zip es))"
    "\<forall>c'. (lit ''manifest.json'', c') \<in> set es \<longleftrightarrow>
       c' = Bytes (json_dumps demo_env (PyDict kvs') @ [10])"
    "map_of kvs' (lit ''version'') = Some (PyStr (lit ''2.0''))"
    unfolding v o using ne by auto
  then show ?thesis by (intro exI [of _ es] exI [of _ kvs']) simp
qed

text \<open>
  The claim as it is written fails for the override \<open>--version ""\<close>: the test
  \<open>if args.version:\<close> is false for the empty string, so the loaded version \<open>1.0\<close> stays,
  in the preview and in the archive.
\<close>

theorem empty_version_override_counterexample:
  "version (demo_args\<lparr>version := Some []\<rparr>) = Some []
   \<and> override_version (Some []) (PyDict [(lit ''version'', PyStr (lit ''1.0''))])
       = Inr (PyDict [(lit ''version'', PyStr (lit ''1.0''))])
   \<and> main demo_env (demo_args\<lparr>version := Some [], dry_run := True\<rparr>) demo_world =
       (Inr 0, demo_world\<lparr>trace :=
        [Stat [lit ''repo'', lit ''extension''],
         Print (lit ''Running in dry-run mode; no files will be written.''),
         MkTemp [lit ''tmp'', lit ''tmpa1b2c3''],
         CopyTree [lit ''repo'', lit ''extension''] [lit ''tmp'', lit ''tmpa1b2c3'', lit ''extension''],
         OpenRead [lit ''tmp'', lit ''tmpa1b2c3'', lit ''extension'', lit ''manifest.json''],
         Print (lit ''Manifest preview:''),
         Print (lit ''version=1.0;host_permissions=https://old/*;''),
         RmTree [lit ''tmp'', lit ''tmpa1b2c3'']]\<rparr>)
   \<and> node_at (files (snd (main demo_env (demo_args\<lparr>version := Some []\<rparr>) demo_world)))
        (output_file demo_args) =
      Some (File (Zip [(lit ''assets/icon.png'', Bytes (lit ''PNG'')),
         (lit ''manifest.json'',
          Bytes (lit ''name=agent;version=1.0;host_permissions=https://old/*;'' @ [10]))]))"
  by code_simp

end
